theory Spec2Isabelle
  imports Complex_Main
begin

section \<open>JavaScript numbers\<close>

text \<open>
  The program of \<^verbatim>\<open>src/compunent/Line.tsx\<close> computes on JavaScript numbers. They are
  modelled as the real numbers extended by the two infinities and by NaN, with the
  arithmetic of IEEE 754 on these special values. Finite results are exact: rounding,
  overflow and underflow of the 64-bit format are left out, and so is the sign of zero
  (the only divisor of the program that can be zero is a result of \<^verbatim>\<open>Math.sqrt\<close>, which
  is never the negative zero). Where the values of the control points matter, the
  rounding is added: see the section on double-precision arithmetic.
\<close>

datatype jsnum = Num real | PInf | NInf | NaN

instantiation jsnum :: "{plus, uminus, minus, times, inverse}"
begin

fun plus_jsnum :: "jsnum \<Rightarrow> jsnum \<Rightarrow> jsnum" where
  "plus_jsnum NaN b = NaN"
| "plus_jsnum a NaN = NaN"
| "plus_jsnum (Num x) (Num y) = Num (x + y)"
| "plus_jsnum (Num x) b = b"
| "plus_jsnum a (Num y) = a"
| "plus_jsnum PInf PInf = PInf"
| "plus_jsnum NInf NInf = NInf"
| "plus_jsnum PInf NInf = NaN"
| "plus_jsnum NInf PInf = NaN"

fun uminus_jsnum :: "jsnum \<Rightarrow> jsnum" where
  "uminus_jsnum (Num x) = Num (- x)"
| "uminus_jsnum PInf = NInf"
| "uminus_jsnum NInf = PInf"
| "uminus_jsnum NaN = NaN"

definition minus_jsnum :: "jsnum \<Rightarrow> jsnum \<Rightarrow> jsnum" where
  "minus_jsnum a b = a + (- b)"

fun times_jsnum :: "jsnum \<Rightarrow> jsnum \<Rightarrow> jsnum" where
  "times_jsnum NaN b = NaN"
| "times_jsnum a NaN = NaN"
| "times_jsnum (Num x) (Num y) = Num (x * y)"
| "times_jsnum (Num x) PInf = (if x = 0 then NaN else if 0 < x then PInf else NInf)"
| "times_jsnum (Num x) NInf = (if x = 0 then NaN else if 0 < x then NInf else PInf)"
| "times_jsnum PInf (Num y) = (if y = 0 then NaN else if 0 < y then PInf else NInf)"
| "times_jsnum NInf (Num y) = (if y = 0 then NaN else if 0 < y then NInf else PInf)"
| "times_jsnum PInf PInf = PInf"
| "times_jsnum NInf NInf = PInf"
| "times_jsnum PInf NInf = NInf"
| "times_jsnum NInf PInf = NInf"

fun divide_jsnum :: "jsnum \<Rightarrow> jsnum \<Rightarrow> jsnum" where
  "divide_jsnum NaN b = NaN"
| "divide_jsnum a NaN = NaN"
| "divide_jsnum (Num x) (Num y) =
     (if y = 0 then (if x = 0 then NaN else if 0 < x then PInf else NInf)
      else Num (x / y))"
| "divide_jsnum (Num x) b = Num 0"
| "divide_jsnum PInf (Num y) = (if y < 0 then NInf else PInf)"
| "divide_jsnum NInf (Num y) = (if y < 0 then PInf else NInf)"
| "divide_jsnum a b = NaN"

definition inverse_jsnum :: "jsnum \<Rightarrow> jsnum" where
  "inverse_jsnum a = divide (Num 1) a"

instance ..

end

text \<open>\<^verbatim>\<open>Math.sqrt\<close>, \<^verbatim>\<open>Math.sin\<close> and \<^verbatim>\<open>Math.round\<close> (which rounds halves up).\<close>

fun jsqrt :: "jsnum \<Rightarrow> jsnum" where
  "jsqrt (Num x) = (if x < 0 then NaN else Num (sqrt x))"
| "jsqrt PInf = PInf"
| "jsqrt NInf = NaN"
| "jsqrt NaN = NaN"

fun jsin :: "jsnum \<Rightarrow> jsnum" where
  "jsin (Num x) = Num (sin x)"
| "jsin a = NaN"

fun jround :: "jsnum \<Rightarrow> jsnum" where
  "jround (Num x) = Num (of_int \<lfloor>x + 1 / 2\<rfloor>)"
| "jround a = a"

text \<open>A number is falsy (for \<^verbatim>\<open>||\<close>) when it is zero or NaN.\<close>

fun falsy :: "jsnum \<Rightarrow> bool" where
  "falsy (Num x) = (x = 0)"
| "falsy NaN = True"
| "falsy a = False"

section \<open>The drawing surface\<close>

text \<open>
  The 2D context is an external collaborator. It is modelled by the sequence of the
  operations issued on it, oldest first; an operation is appended when it is called.
\<close>

datatype cmd =
    BeginPath
  | MoveTo jsnum jsnum
  | LineTo jsnum jsnum
  | BezierCurveTo jsnum jsnum jsnum jsnum jsnum jsnum
  | Stroke
  | ClearRect jsnum jsnum jsnum jsnum
  | StrokeStyle jsnum jsnum jsnum
  | Reset

type_synonym ctx = "cmd list"

type_synonym point = "jsnum \<times> jsnum"

text \<open>
  An element of \<^verbatim>\<open>cpoints\<close>: an object whose properties \<^verbatim>\<open>cp\<close> and \<^verbatim>\<open>cn\<close> may be
  absent (the empty object has neither).
\<close>

record cpoint =
  cp :: "point option"
  cn :: "point option"

text \<open>
  Reading an index or a property of \<^verbatim>\<open>undefined\<close> throws a TypeError; that is the
  only exception the program could raise.
\<close>

datatype error = TypeError

definition bindE :: "error + 'a \<Rightarrow> ('a \<Rightarrow> error + 'b) \<Rightarrow> error + 'b" where
  "bindE m f = (case m of Inl e \<Rightarrow> Inl e | Inr v \<Rightarrow> f v)"

text \<open>\<^verbatim>\<open>points[i]\<close> followed by a read of its coordinates.\<close>

definition point_at :: "point list \<Rightarrow> nat \<Rightarrow> error + point" where
  "point_at points i = (if i < length points then Inr (points ! i) else Inl TypeError)"

text \<open>\<^verbatim>\<open>cpoints[i].cp\<close> and \<^verbatim>\<open>cpoints[i].cn\<close> followed by a read of their coordinates.\<close>

definition cp_at :: "cpoint list \<Rightarrow> nat \<Rightarrow> error + point" where
  "cp_at cpoints i =
     (if i < length cpoints
      then (case cp (cpoints ! i) of Some c \<Rightarrow> Inr c | None \<Rightarrow> Inl TypeError)
      else Inl TypeError)"

definition cn_at :: "cpoint list \<Rightarrow> nat \<Rightarrow> error + point" where
  "cn_at cpoints i =
     (if i < length cpoints
      then (case cn (cpoints ! i) of Some c \<Rightarrow> Inr c | None \<Rightarrow> Inl TypeError)
      else Inl TypeError)"

text \<open>
  A counting \<^verbatim>\<open>for\<close> loop over the given indices, threading the state and stopping at
  the first exception.
\<close>

fun forM :: "nat list \<Rightarrow> ('s \<Rightarrow> nat \<Rightarrow> error + 's) \<Rightarrow> 's \<Rightarrow> error + 's" where
  "forM [] body s = Inr s"
| "forM (i # is) body s =
     (case body s i of Inl e \<Rightarrow> Inl e | Inr s' \<Rightarrow> forM is body s')"

section \<open>bezierCurveThrough\<close>

text \<open>The helper \<^verbatim>\<open>h\<close>: the hypotenuse.\<close>

definition h :: "jsnum \<Rightarrow> jsnum \<Rightarrow> jsnum" where
  "h x y = jsqrt (x * x + y * y)"

text \<open>
  Lines 51 to 55: the normalized tangent \<open>(dx, dy)\<close> at a point whose previous point
  is \<open>pp\<close> and whose next point is \<open>pn\<close>. The division is not guarded.
\<close>

definition tangent :: "point \<Rightarrow> point \<Rightarrow> point" where
  "tangent pp pn =
     (let rdx = fst pn - fst pp;
          rdy = snd pn - snd pp;
          rd = h rdx rdy;
          dx = rdx / rd;
          dy = rdy / rd
      in (dx, dy))"

text \<open>
  Lines 43 to 77: the two control points of the current point \<open>pi'\<close>, from the previous
  point \<open>pp\<close> and the next point \<open>pn\<close>.
\<close>

definition tangent_cps :: "point \<Rightarrow> point \<Rightarrow> point \<Rightarrow> jsnum \<Rightarrow> cpoint" where
  "tangent_cps pp pi' pn tension =
     (let dx = fst (tangent pp pn);
          dy = snd (tangent pp pn);
          dp = h (fst pi' - fst pp) (snd pi' - snd pp);
          dn = h (fst pi' - fst pn) (snd pi' - snd pn);
          cpx = fst pi' - dx * dp * tension;
          cpy = snd pi' - dy * dp * tension;
          cnx = fst pi' + dx * dn * tension;
          cny = snd pi' + dy * dn * tension
      in \<lparr>cp = Some (cpx, cpy), cn = Some (cnx, cny)\<rparr>)"

text \<open>
  The body of the loop of lines 42 to 78. The assigned index is inside \<^verbatim>\<open>cpoints\<close>,
  which has one element per point.
\<close>

definition interior :: "point list \<Rightarrow> jsnum \<Rightarrow> cpoint list \<Rightarrow> nat \<Rightarrow> error + cpoint list" where
  "interior points tension cpoints i =
     bindE (point_at points i) (\<lambda>pi'.
     bindE (point_at points (i - 1)) (\<lambda>pp.
     bindE (point_at points (i + 1)) (\<lambda>pn.
       Inr (cpoints[i := tangent_cps pp pi' pn tension]))))"

text \<open>
  Lines 37 to 95: the array \<^verbatim>\<open>cpoints\<close> as it is when drawing starts. Called for at
  least three points.
\<close>

definition control_points :: "point list \<Rightarrow> jsnum \<Rightarrow> error + cpoint list" where
  "control_points points tension =
     (let l = length points;
          cpoints0 = map (\<lambda>_. \<lparr>cp = None, cn = None\<rparr>) points
      in bindE (forM [1..<l - 1] (interior points tension) cpoints0) (\<lambda>cpoints1.
         bindE (point_at points 0) (\<lambda>p0.
         bindE (cp_at cpoints1 1) (\<lambda>c1.
         let cpoints2 = cpoints1[0 := \<lparr>cp = None,
               cn = Some ((fst p0 + fst c1) / Num 2, (snd p0 + snd c1) / Num 2)\<rparr>]
         in bindE (point_at points (l - 1)) (\<lambda>pl.
            bindE (cn_at cpoints2 (l - 2)) (\<lambda>c2.
              Inr (cpoints2[l - 1 := \<lparr>cp =
                     Some ((fst pl + fst c2) / Num 2, (snd pl + snd c2) / Num 2),
                   cn = None\<rparr>])))))))"

text \<open>The body of the drawing loop of lines 101 to 109.\<close>

definition draw_segment :: "point list \<Rightarrow> cpoint list \<Rightarrow> ctx \<Rightarrow> nat \<Rightarrow> error + ctx" where
  "draw_segment points cpoints c i =
     bindE (cn_at cpoints (i - 1)) (\<lambda>cpp.
     bindE (cp_at cpoints i) (\<lambda>cp'.
     bindE (point_at points i) (\<lambda>p.
       Inr (c @ [BezierCurveTo (fst cpp) (snd cpp) (fst cp') (snd cp') (fst p) (snd p)]))))"

definition bezierCurveThrough :: "ctx \<Rightarrow> point list \<Rightarrow> jsnum \<Rightarrow> error + ctx" where
  "bezierCurveThrough c points tension0 =
     (let tension = (if falsy tension0 then Num (1 / 4) else tension0);
          l = length points
      in if l < 2 then Inr c
         else
           let c1 = c @ [BeginPath]
           in if l = 2
              then Inr (c1 @ [MoveTo (fst (points ! 0)) (snd (points ! 0)),
                              LineTo (fst (points ! 1)) (snd (points ! 1)),
                              Stroke])
              else
                bindE (control_points points tension) (\<lambda>cpoints.
                bindE (point_at points 0) (\<lambda>p0.
                bindE (forM [1..<l] (draw_segment points cpoints)
                         (c1 @ [MoveTo (fst p0) (snd p0)])) (\<lambda>c3.
                  Inr (c3 @ [Stroke])))))"

section \<open>The animation driver\<close>

text \<open>
  The state of the effect of \<^verbatim>\<open>Line\<close>: the closure variables \<^verbatim>\<open>startFrame\<close> and
  \<^verbatim>\<open>lastFrame\<close> (absent while undefined), the drawing surface behind \<^verbatim>\<open>context\<close>, and
  the host's side of \<^verbatim>\<open>requestAnimationFrame\<close>: the last handle it gave out and the
  handles of the requested callbacks that were neither run nor cancelled. Every
  requested callback is \<^verbatim>\<open>renderCurves\<close>. The field \<open>ticks\<close> is a ghost variable: it
  records the value of \<^verbatim>\<open>elapsed\<close> of every tick executed so far, oldest first.
\<close>

record driver =
  startFrame :: "jsnum option"
  lastFrame :: "nat option"
  surface :: ctx
  next_handle :: nat
  pending :: "nat list"
  ticks :: "jsnum list"

text \<open>Line 122, the value of \<^verbatim>\<open>startFrame\<close> after \<^verbatim>\<open>startFrame ??= timeStamp\<close>.\<close>

definition start_of :: "driver \<Rightarrow> jsnum \<Rightarrow> jsnum" where
  "start_of d timeStamp = (case startFrame d of None \<Rightarrow> timeStamp | Some s \<Rightarrow> s)"

text \<open>Line 124, \<^verbatim>\<open>elapsed\<close>.\<close>

definition elapsed_of :: "driver \<Rightarrow> jsnum \<Rightarrow> jsnum" where
  "elapsed_of d timeStamp = timeStamp - start_of d timeStamp"

text \<open>Lines 125 and 129, \<^verbatim>\<open>progress\<close> and \<^verbatim>\<open>k\<close>.\<close>

definition k_of :: "jsnum \<Rightarrow> jsnum" where
  "k_of elapsed =
     (let progress = elapsed / Num 5000
      in jsin (progress * Num pi * Num 2) * Num 40)"

text \<open>Lines 134 to 142: one colour channel of curve \<open>i\<close>.\<close>

definition channel :: "real \<Rightarrow> real \<Rightarrow> nat \<Rightarrow> jsnum" where
  "channel s e i = jround (Num s + (Num e - Num s) * (Num (real i) / Num 70))"

text \<open>Lines 146 to 151: the array literal passed for curve \<open>i\<close>.\<close>

definition waypoints :: "jsnum \<Rightarrow> nat \<Rightarrow> point list" where
  "waypoints k i =
     [(Num 0, Num 0 + Num (real i) * Num 4),
      (Num 230 + k, Num 100 + Num (real i) * Num 9 + k),
      (Num 500 + k, Num 300 + Num (real i) * Num 9 + k),
      (Num 800, Num 300 + Num (real i) * Num 8)]"

text \<open>The body of the loop of lines 133 to 154.\<close>

definition curve_body :: "jsnum \<Rightarrow> ctx \<Rightarrow> nat \<Rightarrow> error + ctx" where
  "curve_body k c i =
     (let r = channel 38 238 i;
          g = channel 69 0 i;
          b = channel 187 53 i
      in bezierCurveThrough (c @ [StrokeStyle r g b]) (waypoints k i) (Num (1 / 4)))"

text \<open>
  Lines 121 to 157. The canvas is 800 by 600. \<^verbatim>\<open>requestAnimationFrame\<close> gives out the
  next handle and keeps the callback until it is run or cancelled.
\<close>

definition renderCurves :: "driver \<Rightarrow> jsnum \<Rightarrow> error + driver" where
  "renderCurves d timeStamp =
     (let start = start_of d timeStamp;
          elapsed = elapsed_of d timeStamp;
          c0 = surface d @ [ClearRect (Num 0) (Num 0) (Num 800) (Num 600)];
          k = k_of elapsed
      in bindE (forM [0..<70] (curve_body k) c0) (\<lambda>c1.
           let handle = Suc (next_handle d)
           in Inr (d\<lparr>startFrame := Some start, surface := c1, lastFrame := Some handle,
                     next_handle := handle, pending := pending d @ [handle],
                     ticks := ticks d @ [elapsed]\<rparr>)))"

text \<open>The state in which the effect starts, and line 159: the effect's own first call.\<close>

definition init :: driver where
  "init = \<lparr>startFrame = None, lastFrame = None, surface = [], next_handle = 0,
            pending = [], ticks = []\<rparr>"

definition mount :: "jsnum \<Rightarrow> error + driver" where
  "mount now = renderCurves init now"

text \<open>
  The host's frame: it takes the requested callbacks, empties its list, and runs each
  of them with the frame's timestamp. An exception (none is ever thrown, see below) ends
  the run.
\<close>

definition frame :: "driver \<Rightarrow> jsnum \<Rightarrow> error + driver" where
  "frame d timeStamp =
     forM (pending d) (\<lambda>d' handle. renderCurves d' timeStamp) (d\<lparr>pending := []\<rparr>)"

text \<open>
  Lines 162 to 165, the cleanup: \<^verbatim>\<open>cancelAnimationFrame(lastFrame)\<close> drops the callback of
  that handle, then \<^verbatim>\<open>context.reset()\<close>.
\<close>

definition cleanup :: "driver \<Rightarrow> driver" where
  "cleanup d =
     (let d1 = d\<lparr>pending :=
            (case lastFrame d of None \<Rightarrow> pending d | Some handle \<Rightarrow> removeAll handle (pending d))\<rparr>
      in d1\<lparr>surface := surface d1 @ [Reset]\<rparr>)"

text \<open>What the host does to a mounted component: frames, and one teardown.\<close>

datatype event = Frame jsnum | Teardown

fun step :: "driver \<Rightarrow> event \<Rightarrow> error + driver" where
  "step d (Frame timeStamp) = frame d timeStamp"
| "step d Teardown = Inr (cleanup d)"

fun run :: "driver \<Rightarrow> event list \<Rightarrow> error + driver" where
  "run d [] = Inr d"
| "run d (e # es) = (case step d e of Inl err \<Rightarrow> Inl err | Inr d' \<Rightarrow> run d' es)"

section \<open>Notions of the specification\<close>

text \<open>A cubic-curve-to command from its two control points and its end point.\<close>

definition curve_to :: "point \<Rightarrow> point \<Rightarrow> point \<Rightarrow> cmd" where
  "curve_to c1 c2 p = BezierCurveTo (fst c1) (snd c1) (fst c2) (snd c2) (fst p) (snd p)"

text \<open>The end points of the move-to and curve-to commands of a path, in order.\<close>

fun endpoint :: "cmd \<Rightarrow> point option" where
  "endpoint (MoveTo x y) = Some (x, y)"
| "endpoint (BezierCurveTo c1x c1y c2x c2y x y) = Some (x, y)"
| "endpoint other = None"

definition path_endpoints :: "cmd list \<Rightarrow> point list" where
  "path_endpoints cmds = List.map_filter endpoint cmds"

text \<open>The midpoint of two points.\<close>

definition midpoint_of :: "point \<Rightarrow> point \<Rightarrow> point" where
  "midpoint_of a b = ((fst a + fst b) / Num 2, (snd a + snd b) / Num 2)"

text \<open>A point with real coordinates, as a point of the program.\<close>

definition jpoint :: "real \<times> real \<Rightarrow> point" where
  "jpoint p = (Num (fst p), Num (snd p))"

text \<open>The Euclidean distance, and the normalized vector from \<open>a\<close> to \<open>b\<close>.\<close>

definition spec_dist :: "real \<times> real \<Rightarrow> real \<times> real \<Rightarrow> real" where
  "spec_dist a b = sqrt ((fst b - fst a)\<^sup>2 + (snd b - snd a)\<^sup>2)"

definition spec_tangent :: "real \<times> real \<Rightarrow> real \<times> real \<Rightarrow> real \<times> real" where
  "spec_tangent a b = ((fst b - fst a) / spec_dist a b, (snd b - snd a) / spec_dist a b)"

text \<open>The Euclidean distance from a waypoint to a control point.\<close>

definition dist_to :: "point \<Rightarrow> point \<Rightarrow> jsnum" where
  "dist_to p c = h (fst c - fst p) (snd c - snd p)"

text \<open>
  The callback of the last request is pending, and no other: what holds between two
  ticks of a running animation.
\<close>

definition scheduled :: "driver \<Rightarrow> bool" where
  "scheduled d = (lastFrame d = Some (next_handle d) \<and> pending d = [next_handle d])"

section \<open>Double-precision arithmetic\<close>

text \<open>
  The operations above compute finite results exactly. That is enough wherever a result
  concerns which operations are issued, in which order and from which expressions. The
  values of the control points, however, are results of IEEE 754 binary64 arithmetic,
  where every operation rounds to the nearest representable number (ties to even),
  overflows to an infinity and underflows to a subnormal number or to zero. This
  section models that arithmetic; the control-point computation of lines 37 to 95 is
  modelled with it below. The sign of zero is still left out.
\<close>

text \<open>Rounding a real number to the nearest integer, ties to even.\<close>

definition round_even :: "real \<Rightarrow> int" where
  "round_even y =
     (let f = \<lfloor>y\<rfloor>
      in if y - of_int f < 1 / 2 then f
         else if 1 / 2 < y - of_int f then f + 1
         else if even f then f else f + 1)"

text \<open>
  The exponent of the unit in the last place of a positive number: 52 below its binary
  exponent, and never below that of the subnormal numbers.
\<close>

definition ulp_exp :: "real \<Rightarrow> int" where
  "ulp_exp x = max \<lfloor>log 2 x\<rfloor> (- 1022) - 52"

text \<open>
  Rounding to binary64: a positive number is rounded to a multiple of its unit in the
  last place and overflows when that reaches \<open>2 ^ 1024\<close>; rounding is symmetric in
  the sign.
\<close>

definition fl_pos :: "real \<Rightarrow> jsnum" where
  "fl_pos x =
     (let q = 2 powr of_int (ulp_exp x);
          r = of_int (round_even (x / q)) * q
      in if 2 ^ 1024 \<le> r then PInf else Num r)"

definition fl :: "real \<Rightarrow> jsnum" where
  "fl x = (if x = 0 then Num 0 else if 0 < x then fl_pos x else - fl_pos (- x))"

text \<open>
  An operation of the source on doubles is the operation on the extended reals,
  rounded.
\<close>

fun rnd :: "jsnum \<Rightarrow> jsnum" where
  "rnd (Num x) = fl x"
| "rnd a = a"

definition add64 :: "jsnum \<Rightarrow> jsnum \<Rightarrow> jsnum" where
  "add64 a b = rnd (a + b)"

definition sub64 :: "jsnum \<Rightarrow> jsnum \<Rightarrow> jsnum" where
  "sub64 a b = rnd (a - b)"

definition mul64 :: "jsnum \<Rightarrow> jsnum \<Rightarrow> jsnum" where
  "mul64 a b = rnd (a * b)"

definition div64 :: "jsnum \<Rightarrow> jsnum \<Rightarrow> jsnum" where
  "div64 a b = rnd (a / b)"

definition sqrt64 :: "jsnum \<Rightarrow> jsnum" where
  "sqrt64 a = rnd (jsqrt a)"

section \<open>The control points in double precision\<close>

text \<open>The helper \<^verbatim>\<open>h\<close>, lines 30 to 32.\<close>

definition h64 :: "jsnum \<Rightarrow> jsnum \<Rightarrow> jsnum" where
  "h64 x y = sqrt64 (add64 (mul64 x x) (mul64 y y))"

text \<open>Lines 51 to 55.\<close>

definition tangent64 :: "point \<Rightarrow> point \<Rightarrow> point" where
  "tangent64 pp pn =
     (let rdx = sub64 (fst pn) (fst pp);
          rdy = sub64 (snd pn) (snd pp);
          rd = h64 rdx rdy;
          dx = div64 rdx rd;
          dy = div64 rdy rd
      in (dx, dy))"

text \<open>
  The term \<^verbatim>\<open>dx * dp * tension\<close> of lines 69 to 72 and its three siblings: the only
  place where the tension enters.
\<close>

definition disp64 :: "jsnum \<Rightarrow> jsnum \<Rightarrow> jsnum \<Rightarrow> jsnum" where
  "disp64 d dl tension = mul64 (mul64 d dl) tension"

text \<open>Lines 43 to 77.\<close>

definition tangent_cps64 :: "point \<Rightarrow> point \<Rightarrow> point \<Rightarrow> jsnum \<Rightarrow> cpoint" where
  "tangent_cps64 pp pi' pn tension =
     (let dx = fst (tangent64 pp pn);
          dy = snd (tangent64 pp pn);
          dp = h64 (sub64 (fst pi') (fst pp)) (sub64 (snd pi') (snd pp));
          dn = h64 (sub64 (fst pi') (fst pn)) (sub64 (snd pi') (snd pn));
          cpx = sub64 (fst pi') (disp64 dx dp tension);
          cpy = sub64 (snd pi') (disp64 dy dp tension);
          cnx = add64 (fst pi') (disp64 dx dn tension);
          cny = add64 (snd pi') (disp64 dy dn tension)
      in \<lparr>cp = Some (cpx, cpy), cn = Some (cnx, cny)\<rparr>)"

text \<open>The body of the loop of lines 42 to 78.\<close>

definition interior64 :: "point list \<Rightarrow> jsnum \<Rightarrow> cpoint list \<Rightarrow> nat \<Rightarrow> error + cpoint list" where
  "interior64 points tension cpoints i =
     bindE (point_at points i) (\<lambda>pi'.
     bindE (point_at points (i - 1)) (\<lambda>pp.
     bindE (point_at points (i + 1)) (\<lambda>pn.
       Inr (cpoints[i := tangent_cps64 pp pi' pn tension]))))"

text \<open>Lines 37 to 95.\<close>

definition control_points64 :: "point list \<Rightarrow> jsnum \<Rightarrow> error + cpoint list" where
  "control_points64 points tension =
     (let l = length points;
          cpoints0 = map (\<lambda>_. \<lparr>cp = None, cn = None\<rparr>) points
      in bindE (forM [1..<l - 1] (interior64 points tension) cpoints0) (\<lambda>cpoints1.
         bindE (point_at points 0) (\<lambda>p0.
         bindE (cp_at cpoints1 1) (\<lambda>c1.
         let cpoints2 = cpoints1[0 := \<lparr>cp = None,
               cn = Some (div64 (add64 (fst p0) (fst c1)) (Num 2),
                          div64 (add64 (snd p0) (snd c1)) (Num 2))\<rparr>]
         in bindE (point_at points (l - 1)) (\<lambda>pl.
            bindE (cn_at cpoints2 (l - 2)) (\<lambda>c2.
              Inr (cpoints2[l - 1 := \<lparr>cp =
                     Some (div64 (add64 (fst pl) (fst c2)) (Num 2),
                           div64 (add64 (snd pl) (snd c2)) (Num 2)),
                   cn = None\<rparr>])))))))"

text \<open>Lines 4 to 112, with the control points of double precision.\<close>

definition bezierCurveThrough64 :: "ctx \<Rightarrow> point list \<Rightarrow> jsnum \<Rightarrow> error + ctx" where
  "bezierCurveThrough64 c points tension0 =
     (let tension = (if falsy tension0 then Num (1 / 4) else tension0);
          l = length points
      in if l < 2 then Inr c
         else
           let c1 = c @ [BeginPath]
           in if l = 2
              then Inr (c1 @ [MoveTo (fst (points ! 0)) (snd (points ! 0)),
                              LineTo (fst (points ! 1)) (snd (points ! 1)),
                              Stroke])
              else
                bindE (control_points64 points tension) (\<lambda>cpoints.
                bindE (point_at points 0) (\<lambda>p0.
                bindE (forM [1..<l] (draw_segment points cpoints)
                         (c1 @ [MoveTo (fst p0) (snd p0)])) (\<lambda>c3.
                  Inr (c3 @ [Stroke])))))"

text \<open>
  The exact values of all intermediate results of lines 51 to 72 for the previous point
  \<open>a\<close>, the current point \<open>p\<close>, the next point \<open>b\<close> and the tension \<open>t\<close>, in the order
  of the source. The double-precision computation is exact on an input when rounding
  changes none of them.
\<close>

definition steps :: "real \<times> real \<Rightarrow> real \<times> real \<Rightarrow> real \<times> real \<Rightarrow> real \<Rightarrow> real list" where
  "steps a p b t =
     (let rdx = fst b - fst a;
          rdy = snd b - snd a;
          rd = sqrt (rdx * rdx + rdy * rdy);
          dx = rdx / rd;
          dy = rdy / rd;
          ux = fst p - fst a;
          uy = snd p - snd a;
          dp = sqrt (ux * ux + uy * uy);
          vx = fst p - fst b;
          vy = snd p - snd b;
          dn = sqrt (vx * vx + vy * vy)
      in [rdx, rdy, rdx * rdx, rdy * rdy, rdx * rdx + rdy * rdy, rd, dx, dy,
          ux, uy, ux * ux, uy * uy, ux * ux + uy * uy, dp,
          vx, vy, vx * vx, vy * vy, vx * vx + vy * vy, dn,
          dx * dp, dx * dp * t, fst p - dx * dp * t,
          dy * dp, dy * dp * t, snd p - dy * dp * t,
          dx * dn, dx * dn * t, fst p + dx * dn * t,
          dy * dn, dy * dn * t, snd p + dy * dn * t])"

text \<open>
  The product of the number \<open>A\<close> and the tension \<open>t\<close> scales: \<open>A\<close> is finite, the exact
  product is zero or at least the smallest normal number (2 to the power -1022) in
  magnitude, and twice its rounded value is below the overflow threshold.
\<close>

definition scales :: "jsnum \<Rightarrow> real \<Rightarrow> bool" where
  "scales A t =
     (case A of
        Num a \<Rightarrow>
          (a * t = 0 \<or> 1 / 2 ^ 1022 \<le> \<bar>a * t\<bar>) \<and>
          (case fl (a * t) of Num r \<Rightarrow> \<bar>2 * r\<bar> < 2 ^ 1024 | _ \<Rightarrow> False)
      | _ \<Rightarrow> False)"

text \<open>A representable number whose square overflows, for a concrete input.\<close>

definition huge :: real where
  "huge = 2 ^ 600"

section \<open>Basic facts\<close>

lemma minus_Num [simp]: "Num x - Num y = Num (x - y)"
  by (simp add: minus_jsnum_def)

lemma h_Num [simp]: "h (Num x) (Num y) = Num (sqrt (x * x + y * y))"
  by (simp add: h_def not_less)

section \<open>The loops of bezierCurveThrough\<close>

lemma bindE_Inr [simp]: "bindE (Inr v) f = f v"
  by (simp add: bindE_def)

lemma bindE_Inl [simp]: "bindE (Inl e) f = Inl e"
  by (simp add: bindE_def)

lemma forM_append: "forM (xs @ ys) body s = bindE (forM xs body s) (forM ys body)"
  by (induction xs arbitrary: s) (auto split: sum.splits)

lemma interior_ok:
  "1 \<le> i \<Longrightarrow> i + 1 < length points \<Longrightarrow>
   interior points t cps i =
     Inr (cps[i := tangent_cps (points ! (i - 1)) (points ! i) (points ! (i + 1)) t])"
  by (simp add: interior_def point_at_def)

lemma forM_interior:
  "hi < length points \<Longrightarrow> 1 \<le> lo \<Longrightarrow> length cps = length points \<Longrightarrow>
   \<exists>cps'. forM [lo..<hi] (interior points t) cps = Inr cps' \<and> length cps' = length cps \<and>
     (\<forall>j<length cps. cps' ! j =
        (if lo \<le> j \<and> j < hi
         then tangent_cps (points ! (j - 1)) (points ! j) (points ! (j + 1)) t
         else cps ! j))"
proof (induction hi)
  case 0
  then show ?case by simp
next
  case (Suc hi)
  show ?case
  proof (cases "lo \<le> hi")
    case False
    then show ?thesis by auto
  next
    case True
    from Suc obtain cps' where
      run: "forM [lo..<hi] (interior points t) cps = Inr cps'" and
      len: "length cps' = length cps" and
      nth: "\<forall>j<length cps. cps' ! j =
        (if lo \<le> j \<and> j < hi
         then tangent_cps (points ! (j - 1)) (points ! j) (points ! (j + 1)) t
         else cps ! j)"
      by force
    have step: "interior points t cps' hi =
      Inr (cps'[hi := tangent_cps (points ! (hi - 1)) (points ! hi) (points ! (hi + 1)) t])"
      using Suc.prems True by (intro interior_ok) auto
    have "forM [lo..<Suc hi] (interior points t) cps =
      Inr (cps'[hi := tangent_cps (points ! (hi - 1)) (points ! hi) (points ! (hi + 1)) t])"
      using True run step by (simp add: forM_append)
    moreover have "\<forall>j<length cps.
      cps'[hi := tangent_cps (points ! (hi - 1)) (points ! hi) (points ! (hi + 1)) t] ! j =
        (if lo \<le> j \<and> j < Suc hi
         then tangent_cps (points ! (j - 1)) (points ! j) (points ! (j + 1)) t
         else cps ! j)"
      using nth len True by (auto simp: nth_list_update less_Suc_eq)
    ultimately show ?thesis using len by simp
  qed
qed

lemma control_points_ok:
  assumes "3 \<le> length points"
  shows "\<exists>cps. control_points points t = Inr cps \<and> length cps = length points \<and>
    (\<forall>j. 1 \<le> j \<and> j + 1 < length points \<longrightarrow>
       cps ! j = tangent_cps (points ! (j - 1)) (points ! j) (points ! (j + 1)) t) \<and>
    cps ! 0 = \<lparr>cp = None, cn = Some
       ((fst (points ! 0) + fst (the (cp (cps ! 1)))) / Num 2,
        (snd (points ! 0) + snd (the (cp (cps ! 1)))) / Num 2)\<rparr> \<and>
    cps ! (length points - 1) = \<lparr>cp = Some
       ((fst (points ! (length points - 1)) + fst (the (cn (cps ! (length points - 2))))) / Num 2,
        (snd (points ! (length points - 1)) + snd (the (cn (cps ! (length points - 2))))) / Num 2),
       cn = None\<rparr>"
proof -
  let ?l = "length points"
  let ?c0 = "map (\<lambda>_. \<lparr>cp = None, cn = None\<rparr>) points"
  let ?T = "\<lambda>j. tangent_cps (points ! (j - 1)) (points ! j) (points ! (j + 1)) t"
  have "\<exists>cps'. forM [1..<?l - 1] (interior points t) ?c0 = Inr cps' \<and> length cps' = length ?c0 \<and>
     (\<forall>j<length ?c0. cps' ! j = (if 1 \<le> j \<and> j < ?l - 1 then ?T j else ?c0 ! j))"
    using assms by (intro forM_interior) auto
  then obtain c1 where
    run: "forM [1..<?l - 1] (interior points t) ?c0 = Inr c1" and
    len: "length c1 = ?l" and
    nth: "\<forall>j<?l. c1 ! j = (if 1 \<le> j \<and> j < ?l - 1 then ?T j else ?c0 ! j)"
    by auto
  have ne: "c1 \<noteq> []" "points \<noteq> []" using len assms by auto
  have c1_1: "c1 ! 1 = ?T 1" using nth assms by auto
  have c1_l2: "c1 ! (?l - 2) = ?T (?l - 2)" using nth assms by auto
  have cpT: "\<And>j. cp (?T j) \<noteq> None" "\<And>j. cn (?T j) \<noteq> None"
    by (simp_all add: tangent_cps_def Let_def)
  obtain a where a: "cp (?T 1) = Some a" using cpT(1) by blast
  obtain b where b: "cn (?T (?l - 2)) = Some b" using cpT(2) by blast
  let ?c2 = "c1[0 := \<lparr>cp = None,
               cn = Some ((fst (points ! 0) + fst a) / Num 2, (snd (points ! 0) + snd a) / Num 2)\<rparr>]"
  let ?c3 = "?c2[?l - 1 := \<lparr>cp =
                     Some ((fst (points ! (?l - 1)) + fst b) / Num 2, (snd (points ! (?l - 1)) + snd b) / Num 2),
                   cn = None\<rparr>]"
  have res: "control_points points t = Inr ?c3"
    using assms run len c1_1 c1_l2 a b
    by (auto simp add: control_points_def Let_def point_at_def cp_at_def cn_at_def)
  have "\<forall>j. 1 \<le> j \<and> j + 1 < ?l \<longrightarrow> ?c3 ! j = ?T j"
    using nth len by (auto simp: nth_list_update)
  moreover have "?c3 ! 1 = ?T 1" "?c3 ! (?l - 2) = ?T (?l - 2)"
    using c1_1 c1_l2 assms len by (auto simp: nth_list_update)
  moreover have "?c3 ! 0 = \<lparr>cp = None,
               cn = Some ((fst (points ! 0) + fst a) / Num 2, (snd (points ! 0) + snd a) / Num 2)\<rparr>"
    using assms len ne by (auto simp add: nth_list_update)
  moreover have "?c3 ! (?l - 1) = \<lparr>cp =
                     Some ((fst (points ! (?l - 1)) + fst b) / Num 2, (snd (points ! (?l - 1)) + snd b) / Num 2),
                   cn = None\<rparr>"
    using assms len ne by (auto simp add: nth_list_update)
  ultimately show ?thesis
    using res len a b by (intro exI[of _ ?c3]) simp
qed


lemma draw_segment_ok:
  "1 \<le> i \<Longrightarrow> i < length points \<Longrightarrow> length cps = length points \<Longrightarrow>
   cn (cps ! (i - 1)) = Some a \<Longrightarrow> cp (cps ! i) = Some b \<Longrightarrow>
   draw_segment points cps c i = Inr (c @ [curve_to a b (points ! i)])"
  by (simp add: draw_segment_def point_at_def cp_at_def cn_at_def curve_to_def)

lemma forM_draw:
  "hi \<le> length points \<Longrightarrow> 1 \<le> lo \<Longrightarrow> length cps = length points \<Longrightarrow>
   (\<forall>i. lo \<le> i \<and> i < hi \<longrightarrow> cn (cps ! (i - 1)) \<noteq> None \<and> cp (cps ! i) \<noteq> None) \<Longrightarrow>
   forM [lo..<hi] (draw_segment points cps) c =
     Inr (c @ map (\<lambda>i. curve_to (the (cn (cps ! (i - 1)))) (the (cp (cps ! i))) (points ! i)) [lo..<hi])"
proof (induction hi)
  case 0
  then show ?case by simp
next
  case (Suc hi)
  show ?case
  proof (cases "lo \<le> hi")
    case False
    then show ?thesis by simp
  next
    case True
    have ih: "forM [lo..<hi] (draw_segment points cps) c =
      Inr (c @ map (\<lambda>i. curve_to (the (cn (cps ! (i - 1)))) (the (cp (cps ! i))) (points ! i)) [lo..<hi])"
      using Suc by auto
    obtain a b where ab: "cn (cps ! (hi - 1)) = Some a" "cp (cps ! hi) = Some b"
      using Suc.prems True by (metis lessI option.exhaust)
    have "draw_segment points cps s hi = Inr (s @ [curve_to a b (points ! hi)])" for s
      using Suc.prems True ab by (intro draw_segment_ok) auto
    then show ?thesis
      using True ih ab by (simp add: forM_append)
  qed
qed

lemma cp_tangent_cps: "cp (tangent_cps a b c t) \<noteq> None"
  by (simp add: tangent_cps_def Let_def)

lemma cn_tangent_cps: "cn (tangent_cps a b c t) \<noteq> None"
  by (simp add: tangent_cps_def Let_def)

lemma bezier_three:
  assumes "3 \<le> length points"
  shows "\<exists>cps. control_points points (if falsy tension then Num (1 / 4) else tension) = Inr cps \<and>
     length cps = length points \<and>
     (\<forall>j. 1 \<le> j \<and> j + 1 < length points \<longrightarrow>
        cps ! j = tangent_cps (points ! (j - 1)) (points ! j) (points ! (j + 1))
                    (if falsy tension then Num (1 / 4) else tension)) \<and>
     (\<forall>i<length points - 1. cn (cps ! i) \<noteq> None \<and> cp (cps ! (i + 1)) \<noteq> None) \<and>
     bezierCurveThrough c points tension =
       Inr (c @ [BeginPath, MoveTo (fst (points ! 0)) (snd (points ! 0))] @
            map (\<lambda>i. curve_to (the (cn (cps ! i))) (the (cp (cps ! (i + 1)))) (points ! (i + 1)))
              [0..<length points - 1] @
            [Stroke])"
proof -
  let ?l = "length points"
  define t where "t = (if falsy tension then Num (1 / 4) else tension)"
  let ?T = "\<lambda>j. tangent_cps (points ! (j - 1)) (points ! j) (points ! (j + 1)) t"
  from control_points_ok[OF assms, of t] obtain cps where
    cps: "control_points points t = Inr cps" and
    len: "length cps = ?l" and
    mid: "\<forall>j. 1 \<le> j \<and> j + 1 < ?l \<longrightarrow> cps ! j = ?T j" and
    first: "cn (cps ! 0) \<noteq> None" and
    last: "cp (cps ! (?l - 1)) \<noteq> None"
    by (metis cpoint.select_convs(1) cpoint.select_convs(2) option.distinct(1))
  have defined: "cn (cps ! i) \<noteq> None \<and> cp (cps ! (i + 1)) \<noteq> None" if "i < ?l - 1" for i
  proof
    show "cn (cps ! i) \<noteq> None"
    proof (cases "i = 0")
      case True
      then show ?thesis using first by simp
    next
      case False
      then have "cps ! i = ?T i" using mid that by auto
      then show ?thesis by (simp only: cn_tangent_cps not_False_eq_True)
    qed
    show "cp (cps ! (i + 1)) \<noteq> None"
    proof (cases "i + 1 = ?l - 1")
      case True
      then show ?thesis using last by simp
    next
      case False
      then have "cps ! (i + 1) = ?T (i + 1)" using mid that by auto
      then show ?thesis by (simp only: cp_tangent_cps not_False_eq_True)
    qed
  qed
  have "\<forall>i. 1 \<le> i \<and> i < ?l \<longrightarrow> cn (cps ! (i - 1)) \<noteq> None \<and> cp (cps ! i) \<noteq> None"
  proof (intro allI impI)
    fix i assume "1 \<le> i \<and> i < ?l"
    then have "i - 1 < ?l - 1" "i - 1 + 1 = i" by auto
    then show "cn (cps ! (i - 1)) \<noteq> None \<and> cp (cps ! i) \<noteq> None"
      using defined[of "i - 1"] by simp
  qed
  then have loop: "forM [1..<?l] (draw_segment points cps) s =
     Inr (s @ map (\<lambda>i. curve_to (the (cn (cps ! (i - 1)))) (the (cp (cps ! i))) (points ! i)) [1..<?l])" for s
    using len by (intro forM_draw) auto
  have shift: "map (\<lambda>i. curve_to (the (cn (cps ! (i - 1)))) (the (cp (cps ! i))) (points ! i)) [1..<?l] =
     map (\<lambda>i. curve_to (the (cn (cps ! i))) (the (cp (cps ! (i + 1)))) (points ! (i + 1))) [0..<?l - 1]"
  proof -
    have "map Suc [0..<?l - 1] = [Suc 0..<Suc (?l - 1)]"
      by (rule map_Suc_upt)
    moreover have "Suc (?l - 1) = ?l"
      using assms by simp
    ultimately have "[1..<?l] = map Suc [0..<?l - 1]"
      by (simp only: One_nat_def)
    then show ?thesis by (simp add: comp_def)
  qed
  have "bezierCurveThrough c points tension =
       Inr (c @ [BeginPath, MoveTo (fst (points ! 0)) (snd (points ! 0))] @
            map (\<lambda>i. curve_to (the (cn (cps ! i))) (the (cp (cps ! (i + 1)))) (points ! (i + 1)))
              [0..<?l - 1] @
            [Stroke])"
    using assms cps loop shift unfolding t_def
    by (auto simp add: bezierCurveThrough_def Let_def point_at_def)
  then show ?thesis using cps len mid defined unfolding t_def by blast
qed

lemma points_as_nth:
  "1 \<le> length ps \<Longrightarrow> ps ! 0 # map (\<lambda>i. ps ! (i + 1)) [0..<length ps - 1] = ps"
  by (cases ps) (simp_all add: map_nth)

lemma path_endpoints_append:
  "path_endpoints (xs @ ys) = path_endpoints xs @ path_endpoints ys"
  by (simp add: path_endpoints_def map_filter_def)

lemma path_endpoints_segments:
  "path_endpoints (map (\<lambda>i. curve_to (f i) (g i) (e i)) xs) = map e xs"
  by (induction xs) (auto simp: path_endpoints_def map_filter_def curve_to_def)

lemmas eval_defs = bezierCurveThrough_def draw_segment_def control_points_def interior_def
  tangent_cps_def tangent_def point_at_def cp_at_def cn_at_def Let_def upt_rec

section \<open>The commands issued by bezierCurveThrough\<close>

text \<open>
  Claim C3. For at least three points the call never throws and appends to the surface,
  whatever it held before, exactly: one path-begin, one move-to at the first point, one
  cubic-curve-to per segment, where segment \<open>i\<close> uses the outgoing control point of
  point \<open>i\<close> and the incoming control point of point \<open>i + 1\<close> and ends at point
  \<open>i + 1\<close>, and one stroke. There are \<open>n - 1\<close> segments, the control points used are
  all present, and the end points of the move-to and curve-to commands are the input
  points in order. The tension used is the argument, or one quarter when the argument
  is falsy.
\<close>

theorem bezierCurveThrough_commands:
  assumes "3 \<le> length points"
  shows "\<exists>cps cmds.
     control_points points (if falsy tension then Num (1 / 4) else tension) = Inr cps \<and>
     (\<forall>i<length points - 1. cn (cps ! i) \<noteq> None \<and> cp (cps ! (i + 1)) \<noteq> None) \<and>
     bezierCurveThrough c points tension = Inr (c @ cmds) \<and>
     cmds = [BeginPath, MoveTo (fst (points ! 0)) (snd (points ! 0))] @
            map (\<lambda>i. curve_to (the (cn (cps ! i))) (the (cp (cps ! (i + 1)))) (points ! (i + 1)))
              [0..<length points - 1] @
            [Stroke] \<and>
     path_endpoints cmds = points"
proof -
  from bezier_three[OF assms, of tension c] obtain cps where
    cps: "control_points points (if falsy tension then Num (1 / 4) else tension) = Inr cps" and
    defined: "\<forall>i<length points - 1. cn (cps ! i) \<noteq> None \<and> cp (cps ! (i + 1)) \<noteq> None" and
    res: "bezierCurveThrough c points tension =
       Inr (c @ [BeginPath, MoveTo (fst (points ! 0)) (snd (points ! 0))] @
            map (\<lambda>i. curve_to (the (cn (cps ! i))) (the (cp (cps ! (i + 1)))) (points ! (i + 1)))
              [0..<length points - 1] @
            [Stroke])"
    by blast
  define segs where "segs =
    map (\<lambda>i. curve_to (the (cn (cps ! i))) (the (cp (cps ! (i + 1)))) (points ! (i + 1)))
      [0..<length points - 1]"
  have "path_endpoints segs = map (\<lambda>i. points ! (i + 1)) [0..<length points - 1]"
    unfolding segs_def by (rule path_endpoints_segments)
  then have "path_endpoints ([BeginPath, MoveTo (fst (points ! 0)) (snd (points ! 0))] @ segs @ [Stroke]) =
    points ! 0 # map (\<lambda>i. points ! (i + 1)) [0..<length points - 1]"
    by (simp add: path_endpoints_append) (simp add: path_endpoints_def map_filter_def)
  also have "\<dots> = points"
    using assms by (intro points_as_nth) simp
  finally show ?thesis
    using cps defined res unfolding segs_def by blast
qed

theorem bezierCurveThrough_commands_witness:
  "3 \<le> length [(Num 0, Num 0), (Num 1, Num 0), (Num 2, Num 0)] \<and>
   bezierCurveThrough [Reset] [(Num 0, Num 0), (Num 1, Num 0), (Num 2, Num 0)] (Num (1 / 4)) =
     Inr ([Reset] @ [BeginPath, MoveTo (Num 0) (Num 0),
          BezierCurveTo (Num (3 / 8)) (Num 0) (Num (3 / 4)) (Num 0) (Num 1) (Num 0),
          BezierCurveTo (Num (5 / 4)) (Num 0) (Num (13 / 8)) (Num 0) (Num 2) (Num 0),
          Stroke]) \<and>
   path_endpoints [BeginPath, MoveTo (Num 0) (Num 0),
          BezierCurveTo (Num (3 / 8)) (Num 0) (Num (3 / 4)) (Num 0) (Num 1) (Num 0),
          BezierCurveTo (Num (5 / 4)) (Num 0) (Num (13 / 8)) (Num 0) (Num 2) (Num 0),
          Stroke] = [(Num 0, Num 0), (Num 1, Num 0), (Num 2, Num 0)]"
proof -
  let ?P = "[(Num 0, Num 0), (Num 1, Num 0), (Num 2, Num 0)]"
  let ?E = "[BeginPath, MoveTo (Num 0) (Num 0),
          BezierCurveTo (Num (3 / 8)) (Num 0) (Num (3 / 4)) (Num 0) (Num 1) (Num 0),
          BezierCurveTo (Num (5 / 4)) (Num 0) (Num (13 / 8)) (Num 0) (Num 2) (Num 0),
          Stroke]"
  have len: "3 \<le> length ?P" by simp
  have ev: "bezierCurveThrough [Reset] ?P (Num (1 / 4)) = Inr ([Reset] @ ?E)"
    by (simp add: eval_defs)
  from bezierCurveThrough_commands[OF len, of "Num (1 / 4)" "[Reset]"] obtain cmds where
    "bezierCurveThrough [Reset] ?P (Num (1 / 4)) = Inr ([Reset] @ cmds)" and
    ends: "path_endpoints cmds = ?P"
    by blast
  with ev have "cmds = ?E" by simp
  with ends have "path_endpoints ?E = ?P" by (simp only:)
  then show ?thesis
    by (intro conjI) (rule len, rule ev, assumption)
qed



text \<open>
  Claim C4. For no point or one point the call returns without touching the surface
  and without an exception. For exactly two points it appends a path-begin, a move-to
  at the first point, a line-to at the second point and a stroke, and nothing else.
\<close>

theorem small_inputs:
  "(length points < 2 \<longrightarrow> bezierCurveThrough c points tension = Inr c) \<and>
   (length points = 2 \<longrightarrow>
      bezierCurveThrough c points tension =
        Inr (c @ [BeginPath, MoveTo (fst (points ! 0)) (snd (points ! 0)),
                  LineTo (fst (points ! 1)) (snd (points ! 1)), Stroke]))"
  by (simp add: bezierCurveThrough_def Let_def)

theorem small_inputs_witness:
  "bezierCurveThrough [Reset] [] (Num 3) = Inr [Reset] \<and>
   bezierCurveThrough [Reset] [(Num 3, Num 4)] (Num 3) = Inr [Reset] \<and>
   bezierCurveThrough [Reset] [(Num 0, Num 0), (Num 3, Num 4)] (Num 3) =
     Inr [Reset, BeginPath, MoveTo (Num 0) (Num 0), LineTo (Num 3) (Num 4), Stroke]"
  using small_inputs [of "[]" "[Reset]" "Num 3"]
    small_inputs [of "[(Num 3, Num 4)]" "[Reset]" "Num 3"]
    small_inputs [of "[(Num 0, Num 0), (Num 3, Num 4)]" "[Reset]" "Num 3"]
  by simp

text \<open>
  Claim C10. For fewer than three points the result of the call, and so the commands
  it issues, is the same for any two values of the tension argument.
\<close>

theorem tension_unused_below_three:
  "length points < 3 \<Longrightarrow>
   bezierCurveThrough c points t1 = bezierCurveThrough c points t2"
  by (simp add: bezierCurveThrough_def Let_def)

theorem tension_unused_below_three_witness:
  "length [(Num 0, Num 0), (Num 3, Num 4)] < 3 \<and>
   bezierCurveThrough [] [(Num 0, Num 0), (Num 3, Num 4)] (Num (1 / 4)) =
     bezierCurveThrough [] [(Num 0, Num 0), (Num 3, Num 4)] NaN"
proof -
  have len: "length [(Num 0, Num 0), (Num 3, Num 4)] < 3" by simp
  show ?thesis
    by (rule conjI [OF len tension_unused_below_three [OF len]])
qed

section \<open>The control points of interior points\<close>

lemma NaN_absorbs [simp]:
  "a + NaN = NaN" "NaN + a = NaN" "a * NaN = NaN" "NaN * a = NaN"
  "a / NaN = NaN" "NaN / a = NaN" "a - NaN = NaN" "NaN - a = NaN"
  by (cases a; simp add: minus_jsnum_def)+

lemma self_minus: "a - a = Num 0 \<or> a - a = NaN" for a :: jsnum
  by (cases a) (simp_all add: minus_jsnum_def)

lemma tangent_degenerate: "tangent p p = (NaN, NaN)"
proof -
  have h0: "h (Num 0) (Num 0) = Num 0" by simp
  have hN: "h NaN a = NaN" "h a NaN = NaN" for a by (simp_all add: h_def)
  show ?thesis
    using self_minus[of "fst p"] self_minus[of "snd p"]
    by (auto simp: tangent_def Let_def hN)
qed

lemma tangent_cps_degenerate:
  "tangent_cps p q p t = \<lparr>cp = Some (NaN, NaN), cn = Some (NaN, NaN)\<rparr>"
  by (simp add: tangent_cps_def tangent_degenerate Let_def)

lemma spec_dist_zero_iff: "spec_dist a b = 0 \<longleftrightarrow> a = b"
  by (auto simp: spec_dist_def prod_eq_iff)

lemma spec_dist_commute: "spec_dist a b = spec_dist b a"
  by (simp add: spec_dist_def power2_commute)

lemma h_jpoint: "h (Num (fst b) - Num (fst a)) (Num (snd b) - Num (snd a)) = Num (spec_dist a b)"
  by (simp add: spec_dist_def power2_eq_square)

lemma tangent_jpoint:
  "a \<noteq> b \<Longrightarrow> tangent (jpoint a) (jpoint b) = jpoint (spec_tangent a b)"
  using spec_dist_zero_iff[of a b]
  by (simp add: tangent_def jpoint_def Let_def h_jpoint spec_tangent_def del: minus_Num h_Num)
    (simp)

lemma spec_tangent_unit:
  assumes "a \<noteq> b"
  shows "(fst (spec_tangent a b))\<^sup>2 + (snd (spec_tangent a b))\<^sup>2 = 1"
proof -
  let ?d = "spec_dist a b"
  have d: "?d \<noteq> 0" using assms by (simp add: spec_dist_zero_iff)
  have e: "(fst b - fst a)\<^sup>2 + (snd b - snd a)\<^sup>2 = ?d\<^sup>2"
    by (simp add: spec_dist_def)
  have "((fst b - fst a)\<^sup>2 + (snd b - snd a)\<^sup>2) / ?d\<^sup>2 = 1"
    unfolding e using d by simp
  then have "(fst b - fst a)\<^sup>2 / ?d\<^sup>2 + (snd b - snd a)\<^sup>2 / ?d\<^sup>2 = 1"
    by (simp only: add_divide_distrib)
  then show ?thesis
    by (simp add: spec_tangent_def power_divide)
qed

lemma tangent_cps_jpoint:
  assumes "a \<noteq> b"
  shows "tangent_cps (jpoint a) (jpoint p) (jpoint b) (Num t) =
    \<lparr>cp = Some (jpoint (fst p - fst (spec_tangent a b) * spec_dist p a * t,
                        snd p - snd (spec_tangent a b) * spec_dist p a * t)),
     cn = Some (jpoint (fst p + fst (spec_tangent a b) * spec_dist p b * t,
                        snd p + snd (spec_tangent a b) * spec_dist p b * t))\<rparr>"
proof -
  have dp: "h (fst (jpoint p) - fst (jpoint a)) (snd (jpoint p) - snd (jpoint a)) = Num (spec_dist p a)"
    using h_jpoint[of p a] by (simp add: jpoint_def spec_dist_commute del: minus_Num h_Num)
  have dn: "h (fst (jpoint p) - fst (jpoint b)) (snd (jpoint p) - snd (jpoint b)) = Num (spec_dist p b)"
    using h_jpoint[of p b] by (simp add: jpoint_def spec_dist_commute del: minus_Num h_Num)
  show ?thesis
    unfolding tangent_cps_def Let_def dp dn tangent_jpoint[OF assms]
    by (simp add: jpoint_def)
qed


text \<open>
  Claim C6. For at least three points and an interior index \<open>i\<close> whose two neighbours
  coincide, the unguarded division yields a tangent whose two components are NaN and
  both control points of point \<open>i\<close> are NaN; the call still returns normally and issues
  its full sequence of \<open>n + 2\<close> commands, and the NaN coordinates appear in the curve-to
  command that ends at point \<open>i\<close> and in the one that starts from it.
\<close>

theorem coincident_neighbours_give_NaN:
  assumes "3 \<le> length points" and "1 \<le> i" and "i \<le> length points - 2"
    and "points ! (i - 1) = points ! (i + 1)"
  shows "tangent (points ! (i - 1)) (points ! (i + 1)) = (NaN, NaN) \<and>
    (\<exists>cps cmds a b c d.
       control_points points (if falsy tension then Num (1 / 4) else tension) = Inr cps \<and>
       cps ! i = \<lparr>cp = Some (NaN, NaN), cn = Some (NaN, NaN)\<rparr> \<and>
       bezierCurveThrough c0 points tension = Inr (c0 @ cmds) \<and>
       length cmds = length points + 2 \<and>
       cmds ! (i + 1) = BezierCurveTo a b NaN NaN (fst (points ! i)) (snd (points ! i)) \<and>
       cmds ! (i + 2) =
         BezierCurveTo NaN NaN c d (fst (points ! (i + 1))) (snd (points ! (i + 1))))"
proof -
  let ?l = "length points"
  define t where "t = (if falsy tension then Num (1 / 4) else tension)"
  from bezier_three[OF assms(1), of tension c0] obtain cps where
    cps: "control_points points t = Inr cps" and
    mid: "\<forall>j. 1 \<le> j \<and> j + 1 < ?l \<longrightarrow>
        cps ! j = tangent_cps (points ! (j - 1)) (points ! j) (points ! (j + 1)) t" and
    res: "bezierCurveThrough c0 points tension =
       Inr (c0 @ [BeginPath, MoveTo (fst (points ! 0)) (snd (points ! 0))] @
            map (\<lambda>i. curve_to (the (cn (cps ! i))) (the (cp (cps ! (i + 1)))) (points ! (i + 1)))
              [0..<?l - 1] @
            [Stroke])"
    unfolding t_def by blast
  define f where
    "f = (\<lambda>i. curve_to (the (cn (cps ! i))) (the (cp (cps ! (i + 1)))) (points ! (i + 1)))"
  define cmds where
    "cmds = [BeginPath, MoveTo (fst (points ! 0)) (snd (points ! 0))] @ map f [0..<?l - 1] @ [Stroke]"
  have inside: "1 \<le> i \<and> i + 1 < ?l" using assms by auto
  then have "cps ! i = tangent_cps (points ! (i - 1)) (points ! i) (points ! (i + 1)) t"
    using mid by blast
  then have nan: "cps ! i = \<lparr>cp = Some (NaN, NaN), cn = Some (NaN, NaN)\<rparr>"
    by (simp only: assms(4) tangent_cps_degenerate)
  have len: "length cmds = ?l + 2"
    using assms(1) by (simp add: cmds_def)
  have i1: "i - 1 < ?l - 1" "i < ?l - 1" "i - 1 + 1 = i" using inside by auto
  have i2: "Suc (i - Suc 0) = i" using inside by auto
  have "cmds ! (i + 1) = (map f [0..<?l - 1] @ [Stroke]) ! (i - 1)"
    using inside by (simp add: cmds_def)
  also have "\<dots> = f (i - 1)"
    using i1 by (simp add: nth_append)
  finally have first: "cmds ! (i + 1) =
      BezierCurveTo (fst (the (cn (cps ! (i - 1))))) (snd (the (cn (cps ! (i - 1))))) NaN NaN
        (fst (points ! i)) (snd (points ! i))"
    by (simp add: f_def i2 nan curve_to_def)
  have "cmds ! (i + 2) = (map f [0..<?l - 1] @ [Stroke]) ! i"
    by (simp add: cmds_def)
  also have "\<dots> = f i"
    using i1 by (simp add: nth_append)
  finally have second: "cmds ! (i + 2) =
      BezierCurveTo NaN NaN (fst (the (cp (cps ! (i + 1))))) (snd (the (cp (cps ! (i + 1)))))
        (fst (points ! (i + 1))) (snd (points ! (i + 1)))"
    by (simp add: f_def nan curve_to_def)
  have "bezierCurveThrough c0 points tension = Inr (c0 @ cmds)"
    using res by (simp add: cmds_def f_def)
  then have "\<exists>cps cmds a b c d.
       control_points points t = Inr cps \<and>
       cps ! i = \<lparr>cp = Some (NaN, NaN), cn = Some (NaN, NaN)\<rparr> \<and>
       bezierCurveThrough c0 points tension = Inr (c0 @ cmds) \<and>
       length cmds = length points + 2 \<and>
       cmds ! (i + 1) = BezierCurveTo a b NaN NaN (fst (points ! i)) (snd (points ! i)) \<and>
       cmds ! (i + 2) =
         BezierCurveTo NaN NaN c d (fst (points ! (i + 1))) (snd (points ! (i + 1)))"
    using cps nan len first second by blast
  moreover have "tangent (points ! (i - 1)) (points ! (i + 1)) = (NaN, NaN)"
    by (simp only: assms(4) tangent_degenerate)
  ultimately show ?thesis
    unfolding t_def by blast
qed

theorem coincident_neighbours_give_NaN_witness:
  "3 \<le> length [(Num 0, Num 0), (Num 1, Num 1), (Num 0, Num 0)] \<and>
   [(Num 0, Num 0), (Num 1, Num 1), (Num 0, Num 0)] ! (1 - 1) =
     [(Num 0, Num 0), (Num 1, Num 1), (Num 0, Num 0)] ! (1 + 1) \<and>
   tangent (Num 0, Num 0) (Num 0, Num 0) = (NaN, NaN) \<and>
   bezierCurveThrough [] [(Num 0, Num 0), (Num 1, Num 1), (Num 0, Num 0)] (Num (1 / 4)) =
     Inr [BeginPath, MoveTo (Num 0) (Num 0),
          BezierCurveTo NaN NaN NaN NaN (Num 1) (Num 1),
          BezierCurveTo NaN NaN NaN NaN (Num 0) (Num 0),
          Stroke]"
proof -
  let ?P = "[(Num 0, Num 0), (Num 1, Num 1), (Num 0, Num 0)]"
  have h1: "3 \<le> length ?P" by simp
  have h2: "(1::nat) \<le> 1" by simp
  have h3: "1 \<le> length ?P - 2" by simp
  have h4: "?P ! (1 - 1) = ?P ! (1 + 1)" by simp
  have ev: "bezierCurveThrough [] ?P (Num (1 / 4)) =
     Inr [BeginPath, MoveTo (Num 0) (Num 0),
          BezierCurveTo NaN NaN NaN NaN (Num 1) (Num 1),
          BezierCurveTo NaN NaN NaN NaN (Num 0) (Num 0),
          Stroke]"
    by (simp add: eval_defs)
  have "tangent (?P ! (1 - 1)) (?P ! (1 + 1)) = (NaN, NaN)"
    using coincident_neighbours_give_NaN [OF h1 h2 h3 h4, of "Num (1 / 4)" "[]"] by blast
  then have "tangent (Num 0, Num 0) (Num 0, Num 0) = (NaN, NaN)"
    by simp
  then show ?thesis
    by (intro conjI) (rule h1, rule h4, assumption, rule ev)
qed

section \<open>The ticks of the animation driver\<close>

lemma path_endpoints_path:
  assumes "1 \<le> length points"
  shows "path_endpoints ([BeginPath, MoveTo (fst (points ! 0)) (snd (points ! 0))] @
      map (\<lambda>i. curve_to (f i) (g i) (points ! (i + 1))) [0..<length points - 1] @ [Stroke]) =
    points"
proof -
  define segs where
    "segs = map (\<lambda>i. curve_to (f i) (g i) (points ! (i + 1))) [0..<length points - 1]"
  have segs: "path_endpoints segs = map (\<lambda>i. points ! (i + 1)) [0..<length points - 1]"
    unfolding segs_def by (rule path_endpoints_segments)
  have ends: "path_endpoints [BeginPath, MoveTo (fst (points ! 0)) (snd (points ! 0))] =
      [points ! 0]"
    "path_endpoints [Stroke] = []"
    by (simp_all add: path_endpoints_def map_filter_def)
  have "path_endpoints
      ([BeginPath, MoveTo (fst (points ! 0)) (snd (points ! 0))] @ segs @ [Stroke]) =
    path_endpoints [BeginPath, MoveTo (fst (points ! 0)) (snd (points ! 0))] @
    path_endpoints segs @ path_endpoints [Stroke]"
    by (simp only: path_endpoints_append)
  also have "\<dots> = points ! 0 # map (\<lambda>i. points ! (i + 1)) [0..<length points - 1]"
    unfolding segs ends by simp
  also have "\<dots> = points"
    by (rule points_as_nth[OF assms])
  finally show ?thesis
    unfolding segs_def .
qed

lemma bezier_cmds:
  assumes "3 \<le> length points"
  shows "\<exists>cmds. path_endpoints cmds = points \<and>
    (\<forall>c. bezierCurveThrough c points tension = Inr (c @ cmds))"
proof -
  define t where "t = (if falsy tension then Num (1 / 4) else tension)"
  from control_points_ok[OF assms, of t] obtain cps where
    cps: "control_points points t = Inr cps"
    by blast
  define cmds where "cmds = [BeginPath, MoveTo (fst (points ! 0)) (snd (points ! 0))] @
      map (\<lambda>i. curve_to (the (cn (cps ! i))) (the (cp (cps ! (i + 1)))) (points ! (i + 1)))
        [0..<length points - 1] @ [Stroke]"
  have "bezierCurveThrough c points tension = Inr (c @ cmds)" for c
    using bezier_three[OF assms, of tension c] cps
    unfolding t_def cmds_def by auto
  moreover have "path_endpoints cmds = points"
    unfolding cmds_def using assms by (intro path_endpoints_path) simp
  ultimately show ?thesis by blast
qed

lemma curve_body_ok:
  "\<exists>cmds. path_endpoints cmds = waypoints k i \<and>
     (\<forall>c. curve_body k c i = Inr (c @ cmds))"
proof -
  have "3 \<le> length (waypoints k i)" by (simp add: waypoints_def)
  from bezier_cmds[OF this, of "Num (1 / 4)"] obtain cmds where
    ends: "path_endpoints cmds = waypoints k i" and
    run: "\<forall>c. bezierCurveThrough c (waypoints k i) (Num (1 / 4)) = Inr (c @ cmds)"
    by blast
  let ?s = "StrokeStyle (channel 38 238 i) (channel 69 0 i) (channel 187 53 i)"
  have "curve_body k c i = Inr (c @ ?s # cmds)" for c
    using run by (simp add: curve_body_def Let_def)
  moreover have "path_endpoints (?s # cmds) = waypoints k i"
    using ends by (simp add: path_endpoints_def map_filter_def)
  ultimately show ?thesis by blast
qed

lemma forM_curves:
  "\<exists>cmds. path_endpoints cmds = concat (map (waypoints k) is) \<and>
     (\<forall>c. forM is (curve_body k) c = Inr (c @ cmds))"
proof (induction "is")
  case Nil
  have "path_endpoints [] = concat (map (waypoints k) [])"
    by (simp add: path_endpoints_def map_filter_def)
  then show ?case by (intro exI[of _ "[]"]) simp
next
  case (Cons i "is")
  then obtain rest where
    r1: "path_endpoints rest = concat (map (waypoints k) is)" and
    r2: "\<forall>c. forM is (curve_body k) c = Inr (c @ rest)"
    by blast
  from curve_body_ok[of k i] obtain cmds where
    c1: "path_endpoints cmds = waypoints k i" and
    c2: "\<forall>c. curve_body k c i = Inr (c @ cmds)"
    by blast
  have "forM (i # is) (curve_body k) c = Inr (c @ cmds @ rest)" for c
    using r2 c2 by simp
  moreover have "path_endpoints (cmds @ rest) = concat (map (waypoints k) (i # is))"
    using r1 c1 by (simp add: path_endpoints_append)
  ultimately show ?case by blast
qed

lemma renderCurves_ok:
  "\<exists>cmds. path_endpoints cmds = concat (map (waypoints (k_of (elapsed_of d timeStamp))) [0..<70]) \<and>
     forM [0..<70] (curve_body (k_of (elapsed_of d timeStamp)))
       (surface d @ [ClearRect (Num 0) (Num 0) (Num 800) (Num 600)]) =
       Inr (surface d @ ClearRect (Num 0) (Num 0) (Num 800) (Num 600) # cmds) \<and>
     renderCurves d timeStamp =
       Inr (d\<lparr>startFrame := Some (start_of d timeStamp),
               surface := surface d @ ClearRect (Num 0) (Num 0) (Num 800) (Num 600) # cmds,
               lastFrame := Some (Suc (next_handle d)),
               next_handle := Suc (next_handle d),
               pending := pending d @ [Suc (next_handle d)],
               ticks := ticks d @ [elapsed_of d timeStamp]\<rparr>)"
proof -
  from forM_curves[of "k_of (elapsed_of d timeStamp)" "[0..<70]"] obtain cmds where
    ends: "path_endpoints cmds = concat (map (waypoints (k_of (elapsed_of d timeStamp))) [0..<70])" and
    run: "\<forall>c. forM [0..<70] (curve_body (k_of (elapsed_of d timeStamp))) c = Inr (c @ cmds)"
    by blast
  show ?thesis
    using ends by (intro exI[of _ cmds]) (simp add: renderCurves_def Let_def run)
qed

lemma mount_ok:
  "\<exists>d0. mount now = Inr d0 \<and> scheduled d0 \<and> startFrame d0 = Some now \<and>
     ticks d0 = [now - now]"
proof -
  from renderCurves_ok[of init now] obtain cmds where
    "renderCurves init now =
       Inr (init\<lparr>startFrame := Some (start_of init now),
               surface := surface init @ ClearRect (Num 0) (Num 0) (Num 800) (Num 600) # cmds,
               lastFrame := Some (Suc (next_handle init)),
               next_handle := Suc (next_handle init),
               pending := pending init @ [Suc (next_handle init)],
               ticks := ticks init @ [elapsed_of init now]\<rparr>)"
    by blast
  then show ?thesis
    by (simp add: mount_def scheduled_def init_def start_of_def elapsed_of_def)
qed

lemma frame_scheduled:
  assumes "scheduled d"
  shows "\<exists>d'. frame d timeStamp = Inr d' \<and> scheduled d' \<and>
     startFrame d' = Some (start_of d timeStamp) \<and>
     ticks d' = ticks d @ [elapsed_of d timeStamp]"
proof -
  let ?d = "d\<lparr>pending := []\<rparr>"
  from renderCurves_ok[of ?d timeStamp] obtain cmds where
    r: "renderCurves ?d timeStamp =
       Inr (?d\<lparr>startFrame := Some (start_of ?d timeStamp),
               surface := surface ?d @ ClearRect (Num 0) (Num 0) (Num 800) (Num 600) # cmds,
               lastFrame := Some (Suc (next_handle ?d)),
               next_handle := Suc (next_handle ?d),
               pending := pending ?d @ [Suc (next_handle ?d)],
               ticks := ticks ?d @ [elapsed_of ?d timeStamp]\<rparr>)"
    by blast
  have "frame d timeStamp = renderCurves ?d timeStamp"
    using assms by (simp add: frame_def scheduled_def split: sum.splits)
  then show ?thesis
    using r by (simp add: scheduled_def start_of_def elapsed_of_def)
qed

lemma run_frames:
  "scheduled d \<Longrightarrow> startFrame d = Some (Num t0) \<Longrightarrow>
   \<exists>d'. run d (map (\<lambda>t. Frame (Num t)) tss) = Inr d' \<and> scheduled d' \<and>
     startFrame d' = Some (Num t0) \<and>
     ticks d' = ticks d @ map (\<lambda>t. Num (t - t0)) tss"
proof (induction tss arbitrary: d)
  case Nil
  then show ?case by simp
next
  case (Cons t tss)
  from frame_scheduled[OF Cons.prems(1), of "Num t"] obtain d1 where
    f: "frame d (Num t) = Inr d1" and
    s: "scheduled d1" and
    st: "startFrame d1 = Some (start_of d (Num t))" and
    tk: "ticks d1 = ticks d @ [elapsed_of d (Num t)]"
    by blast
  have st': "startFrame d1 = Some (Num t0)"
    using st Cons.prems(2) by (simp add: start_of_def)
  have tk': "ticks d1 = ticks d @ [Num (t - t0)]"
    using tk Cons.prems(2) by (simp add: elapsed_of_def start_of_def)
  from Cons.IH[OF s st'] obtain d' where
    "run d1 (map (\<lambda>t. Frame (Num t)) tss) = Inr d'" "scheduled d'"
    "startFrame d' = Some (Num t0)"
    "ticks d' = ticks d1 @ map (\<lambda>t. Num (t - t0)) tss"
    by blast
  then show ?case
    using f tk' by simp
qed

lemma run_frames_any:
  "scheduled d \<Longrightarrow> \<exists>d'. run d (map Frame tss) = Inr d' \<and> scheduled d'"
proof (induction tss arbitrary: d)
  case Nil
  then show ?case by simp
next
  case (Cons t tss)
  from frame_scheduled[OF Cons.prems, of t] obtain d1 where
    f: "frame d t = Inr d1" and s: "scheduled d1"
    by blast
  from Cons.IH[OF s] show ?case
    using f by simp
qed

lemma cleanup_scheduled:
  "scheduled d \<Longrightarrow> pending (cleanup d) = []"
  by (simp add: cleanup_def scheduled_def Let_def)

lemma cleanup_surface: "surface (cleanup d) = surface d @ [Reset]"
  by (simp add: cleanup_def Let_def)

lemma frame_idle: "pending d = [] \<Longrightarrow> frame d timeStamp = Inr d"
  by (cases d) (simp add: frame_def)

lemma run_idle:
  "pending d = [] \<Longrightarrow> run d (map Frame fs) = Inr d"
  by (induction fs) (simp_all add: frame_idle)

lemma k_of_Num: "k_of (Num e) = Num (sin (e / 5000 * (2 * pi)) * 40)"
  by (simp add: k_of_def Let_def mult.assoc mult.commute)

lemma waypoints_Num:
  "waypoints (Num k) i =
     [(Num 0, Num (4 * real i)),
      (Num (230 + k), Num (100 + 9 * real i + k)),
      (Num (500 + k), Num (300 + 9 * real i + k)),
      (Num 800, Num (300 + 8 * real i))]"
  by (simp add: waypoints_def mult.commute)

text \<open>
  Claim C7, as amended. On a tick whose elapsed time is the number \<open>e\<close> the driver
  computes \<open>k = sin ((e / 5000) * 2 \<pi>) * 40\<close> and, for each curve index \<open>i\<close> from 0 to 69
  in order, calls the interpolator with tension one quarter on the four points
  \<open>(0, 4 i)\<close>, \<open>(230 + k, 100 + 9 i + k)\<close>, \<open>(500 + k, 300 + 9 i + k)\<close> and
  \<open>(800, 300 + 8 i)\<close>: the two end points are offset by \<open>i\<close> along the vertical axis
  only, and the two interior points are offset by \<open>i\<close> along the vertical axis only and
  displaced by \<open>k\<close> along both axes. The tick returns normally, and the end points of
  the paths it draws after clearing the canvas are these 70 sequences in order.
\<close>

theorem tick_waypoints:
  assumes "elapsed_of d timeStamp = Num e"
  shows "let k = sin (e / 5000 * (2 * pi)) * 40 in
     k_of (elapsed_of d timeStamp) = Num k \<and>
     (\<forall>i. waypoints (Num k) i =
        [(Num 0, Num (4 * real i)),
         (Num (230 + k), Num (100 + 9 * real i + k)),
         (Num (500 + k), Num (300 + 9 * real i + k)),
         (Num 800, Num (300 + 8 * real i))]) \<and>
     (\<exists>d' cmds.
        renderCurves d timeStamp = Inr d' \<and>
        forM [0..<70]
          (\<lambda>c i. bezierCurveThrough
             (c @ [StrokeStyle (channel 38 238 i) (channel 69 0 i) (channel 187 53 i)])
             (waypoints (Num k) i) (Num (1 / 4)))
          (surface d @ [ClearRect (Num 0) (Num 0) (Num 800) (Num 600)]) = Inr (surface d') \<and>
        surface d' = surface d @ ClearRect (Num 0) (Num 0) (Num 800) (Num 600) # cmds \<and>
        path_endpoints cmds = concat (map (waypoints (Num k)) [0..<70]))"
proof -
  define k where "k = sin (e / 5000 * (2 * pi)) * 40"
  have kk: "k_of (elapsed_of d timeStamp) = Num k"
    unfolding assms k_def by (rule k_of_Num)
  from renderCurves_ok[of d timeStamp] obtain cmds where
    ends: "path_endpoints cmds = concat (map (waypoints (Num k)) [0..<70])" and
    lp: "forM [0..<70] (curve_body (Num k))
       (surface d @ [ClearRect (Num 0) (Num 0) (Num 800) (Num 600)]) =
       Inr (surface d @ ClearRect (Num 0) (Num 0) (Num 800) (Num 600) # cmds)" and
    r: "renderCurves d timeStamp =
       Inr (d\<lparr>startFrame := Some (start_of d timeStamp),
               surface := surface d @ ClearRect (Num 0) (Num 0) (Num 800) (Num 600) # cmds,
               lastFrame := Some (Suc (next_handle d)),
               next_handle := Suc (next_handle d),
               pending := pending d @ [Suc (next_handle d)],
               ticks := ticks d @ [elapsed_of d timeStamp]\<rparr>)"
    unfolding kk by blast
  let ?d' = "d\<lparr>startFrame := Some (start_of d timeStamp),
               surface := surface d @ ClearRect (Num 0) (Num 0) (Num 800) (Num 600) # cmds,
               lastFrame := Some (Suc (next_handle d)),
               next_handle := Suc (next_handle d),
               pending := pending d @ [Suc (next_handle d)],
               ticks := ticks d @ [elapsed_of d timeStamp]\<rparr>"
  have body: "curve_body (Num k) = (\<lambda>c i. bezierCurveThrough
             (c @ [StrokeStyle (channel 38 238 i) (channel 69 0 i) (channel 187 53 i)])
             (waypoints (Num k) i) (Num (1 / 4)))"
    by (intro ext) (simp add: curve_body_def Let_def)
  have loop: "forM [0..<70]
          (\<lambda>c i. bezierCurveThrough
             (c @ [StrokeStyle (channel 38 238 i) (channel 69 0 i) (channel 187 53 i)])
             (waypoints (Num k) i) (Num (1 / 4)))
          (surface d @ [ClearRect (Num 0) (Num 0) (Num 800) (Num 600)]) = Inr (surface ?d')"
    using lp unfolding body by simp
  have "surface ?d' = surface d @ ClearRect (Num 0) (Num 0) (Num 800) (Num 600) # cmds"
    by simp
  with r loop ends have "\<exists>d' cmds.
        renderCurves d timeStamp = Inr d' \<and>
        forM [0..<70]
          (\<lambda>c i. bezierCurveThrough
             (c @ [StrokeStyle (channel 38 238 i) (channel 69 0 i) (channel 187 53 i)])
             (waypoints (Num k) i) (Num (1 / 4)))
          (surface d @ [ClearRect (Num 0) (Num 0) (Num 800) (Num 600)]) = Inr (surface d') \<and>
        surface d' = surface d @ ClearRect (Num 0) (Num 0) (Num 800) (Num 600) # cmds \<and>
        path_endpoints cmds = concat (map (waypoints (Num k)) [0..<70])"
    by blast
  then show ?thesis
    unfolding Let_def k_def[symmetric] using kk waypoints_Num by blast
qed

theorem tick_waypoints_witness:
  "elapsed_of (init\<lparr>startFrame := Some (Num 0)\<rparr>) (Num 1250) = Num 1250 \<and>
   k_of (elapsed_of (init\<lparr>startFrame := Some (Num 0)\<rparr>) (Num 1250)) = Num 40 \<and>
   waypoints (Num 40) 2 =
     [(Num 0, Num 8), (Num 270, Num 158), (Num 540, Num 358), (Num 800, Num 316)] \<and>
   (\<exists>d' cmds.
      renderCurves (init\<lparr>startFrame := Some (Num 0)\<rparr>) (Num 1250) = Inr d' \<and>
      surface d' = ClearRect (Num 0) (Num 0) (Num 800) (Num 600) # cmds \<and>
      path_endpoints cmds = concat (map (waypoints (Num 40)) [0..<70]))"
proof -
  let ?d = "init\<lparr>startFrame := Some (Num 0)\<rparr>"
  have e: "elapsed_of ?d (Num 1250) = Num 1250"
    by (simp add: elapsed_of_def start_of_def)
  have k: "sin (1250 / 5000 * (2 * pi)) * 40 = (40::real)"
    by simp
  note w = tick_waypoints [OF e, unfolded Let_def k]
  have "waypoints (Num 40) 2 =
     [(Num 0, Num 8), (Num 270, Num 158), (Num 540, Num 358), (Num 800, Num 316)]"
    using w by simp
  moreover have "\<exists>d' cmds.
      renderCurves ?d (Num 1250) = Inr d' \<and>
      surface d' = ClearRect (Num 0) (Num 0) (Num 800) (Num 600) # cmds \<and>
      path_endpoints cmds = concat (map (waypoints (Num 40)) [0..<70])"
    using w by (auto simp: init_def)
  ultimately show ?thesis
    using e w by blast
qed

text \<open>
  Claim C7 as stated fails: the interior points are not offset by \<open>i\<close> along both
  axes. At elapsed time 0 (so \<open>k = 0\<close>) the interior points of curve 0 and of curve 1
  have the same horizontal coordinates, 230 and 500.
\<close>

theorem interior_x_not_offset:
  "k_of (Num 0) = Num 0 \<and>
   waypoints (Num 0) 0 =
     [(Num 0, Num 0), (Num 230, Num 100), (Num 500, Num 300), (Num 800, Num 300)] \<and>
   waypoints (Num 0) 1 =
     [(Num 0, Num 4), (Num 230, Num 109), (Num 500, Num 309), (Num 800, Num 308)] \<and>
   fst (waypoints (Num 0) 1 ! 1) = fst (waypoints (Num 0) 0 ! 1) \<and>
   fst (waypoints (Num 0) 1 ! 2) = fst (waypoints (Num 0) 0 ! 2)"
  by (simp add: k_of_def waypoints_def)

section \<open>The life of the animation\<close>

text \<open>
  Claim C8, as amended. After the effect has started and any number of frames have
  been delivered, exactly the callback requested last is pending. The cleanup cancels
  it, so that no callback is pending, and then performs one operation on the surface,
  the reset of the context. After the cleanup every further frame of the host leaves
  the whole state as it is: no tick executes and the surface is not touched again.
\<close>

theorem teardown_stops_animation:
  "\<exists>d0 d1 handle.
     mount now = Inr d0 \<and>
     run d0 (map Frame tss) = Inr d1 \<and>
     lastFrame d1 = Some handle \<and> pending d1 = [handle] \<and>
     run d1 [Teardown] = Inr (cleanup d1) \<and>
     pending (cleanup d1) = [] \<and>
     surface (cleanup d1) = surface d1 @ [Reset] \<and>
     ticks (cleanup d1) = ticks d1 \<and>
     run (cleanup d1) (map Frame fs) = Inr (cleanup d1)"
proof -
  from mount_ok[of now] obtain d0 where
    m: "mount now = Inr d0" and s0: "scheduled d0"
    by blast
  from run_frames_any[OF s0, of tss] obtain d1 where
    r: "run d0 (map Frame tss) = Inr d1" and s1: "scheduled d1"
    by blast
  have p: "pending (cleanup d1) = []"
    by (rule cleanup_scheduled[OF s1])
  have "run (cleanup d1) (map Frame fs) = Inr (cleanup d1)"
    by (rule run_idle[OF p])
  moreover have "ticks (cleanup d1) = ticks d1"
    by (simp add: cleanup_def Let_def)
  moreover have "run d1 [Teardown] = Inr (cleanup d1)"
    by simp
  ultimately show ?thesis
    using m r s1 p cleanup_surface[of d1] unfolding scheduled_def by blast
qed

text \<open>
  Claim C8 as stated fails in its last part: the cleanup does mutate the surface after
  cancelling the request. After the effect has started at timestamp 0, the surface
  after the cleanup is the surface before it followed by a reset.
\<close>

theorem cleanup_resets_surface:
  "\<not> isl (mount (Num 0)) \<and>
   surface (cleanup (projr (mount (Num 0)))) = surface (projr (mount (Num 0))) @ [Reset] \<and>
   surface (cleanup (projr (mount (Num 0)))) \<noteq> surface (projr (mount (Num 0)))"
proof -
  from mount_ok[of "Num 0"] obtain d0 where "mount (Num 0) = Inr d0"
    by blast
  then show ?thesis
    by (simp add: cleanup_surface)
qed

text \<open>
  Claim C9. In a run that starts at timestamp \<open>t0\<close> and is then delivered the frame
  timestamps \<open>tss\<close>, the whole sequence being non-decreasing, \<^verbatim>\<open>startFrame\<close> is \<open>t0\<close>
  after the first tick and after every later frame, and the values of \<^verbatim>\<open>elapsed\<close> of the
  ticks executed so far are the timestamps minus \<open>t0\<close>: all are non-negative and they
  are non-decreasing. No tick throws.
\<close>

theorem elapsed_monotone:
  assumes "sorted (t0 # tss)"
  shows "\<exists>d0. mount (Num t0) = Inr d0 \<and> startFrame d0 = Some (Num t0) \<and>
     (\<forall>n\<le>length tss. \<exists>d.
        run d0 (map (\<lambda>t. Frame (Num t)) (take n tss)) = Inr d \<and>
        startFrame d = Some (Num t0) \<and>
        ticks d = map (\<lambda>t. Num (t - t0)) (t0 # take n tss)) \<and>
     (\<forall>t\<in>set (t0 # tss). 0 \<le> t - t0) \<and>
     sorted (map (\<lambda>t. t - t0) (t0 # tss))"
proof -
  from mount_ok[of "Num t0"] obtain d0 where
    m: "mount (Num t0) = Inr d0" and s0: "scheduled d0" and
    st: "startFrame d0 = Some (Num t0)" and tk: "ticks d0 = [Num t0 - Num t0]"
    by blast
  have runs: "\<exists>d. run d0 (map (\<lambda>t. Frame (Num t)) (take n tss)) = Inr d \<and>
        startFrame d = Some (Num t0) \<and>
        ticks d = map (\<lambda>t. Num (t - t0)) (t0 # take n tss)" for n
    using run_frames[OF s0 st, of "take n tss"] tk by auto
  have nonneg: "\<forall>t\<in>set (t0 # tss). 0 \<le> t - t0"
    using assms by auto
  have "sorted (map (\<lambda>t. t - t0) (t0 # tss))"
    using assms by (auto simp: sorted_map intro: sorted_wrt_mono_rel[of _ "(\<le>)"])
  then show ?thesis
    using m st runs nonneg by blast
qed

theorem elapsed_monotone_witness:
  "sorted [0, 16, 33 :: real] \<and>
   (\<exists>d0 d. mount (Num 0) = Inr d0 \<and>
      run d0 [Frame (Num 16), Frame (Num 33)] = Inr d \<and>
      startFrame d = Some (Num 0) \<and>
      ticks d = [Num 0, Num 16, Num 33])"
proof -
  have s: "sorted (0 # [16, 33 :: real])" by simp
  from elapsed_monotone [OF s] obtain d0 where
    m: "mount (Num 0) = Inr d0" and
    all: "\<forall>n\<le>length [16, 33 :: real]. \<exists>d.
        run d0 (map (\<lambda>t. Frame (Num t)) (take n [16, 33])) = Inr d \<and>
        startFrame d = Some (Num 0) \<and>
        ticks d = map (\<lambda>t. Num (t - 0)) (0 # take n [16, 33])"
    by blast
  have "2 \<le> length [16, 33 :: real]" by simp
  with all have "\<exists>d.
        run d0 (map (\<lambda>t. Frame (Num t)) (take 2 [16, 33])) = Inr d \<and>
        startFrame d = Some (Num 0) \<and>
        ticks d = map (\<lambda>t. Num (t - 0)) (0 # take 2 [16, 33])"
    by blast
  then have "\<exists>d. run d0 [Frame (Num 16), Frame (Num 33)] = Inr d \<and>
      startFrame d = Some (Num 0) \<and> ticks d = [Num 0, Num 16, Num 33]"
    by simp
  with m s show ?thesis by auto
qed

section \<open>Facts of double-precision rounding\<close>

lemma round_even_int [simp]: "round_even (of_int n) = n"
  by (simp add: round_even_def)

lemma round_even_ge: "of_int n \<le> y \<Longrightarrow> n \<le> round_even y"
proof -
  assume "of_int n \<le> y"
  then have "n \<le> \<lfloor>y\<rfloor>" by (simp add: le_floor_iff)
  moreover have "\<lfloor>y\<rfloor> \<le> round_even y" by (simp add: round_even_def Let_def)
  ultimately show ?thesis by simp
qed

lemma ulp_exp_le:
  assumes "0 < m" and "m < 2 ^ 53" and "- 1074 \<le> e"
  shows "ulp_exp (of_int m * 2 powr of_int e) \<le> e"
proof -
  let ?x = "of_int m * 2 powr of_int e :: real"
  have pos: "0 < ?x" using assms(1) by simp
  have "real_of_int m < real_of_int (2 ^ 53)"
    using assms(2) by (simp only: of_int_less_iff)
  then have m: "real_of_int m < 2 powr 53"
    by (simp add: powr_realpow [symmetric] del: powr_numeral)
  have "?x < 2 powr 53 * 2 powr of_int e"
    using m by (simp del: powr_numeral)
  also have "\<dots> = 2 powr (53 + of_int e)"
    by (simp add: powr_add del: powr_numeral)
  finally have "log 2 ?x < 53 + of_int e"
    using pos by (simp add: log_less_iff del: powr_numeral)
  then have "\<lfloor>log 2 ?x\<rfloor> < 53 + e"
    by (simp add: floor_less_iff)
  then show ?thesis
    using assms(3) by (simp add: ulp_exp_def)
qed

lemma fl_pos_exact:
  assumes "0 < m" and "m < 2 ^ 53" and "- 1074 \<le> e"
    and "of_int m * 2 powr of_int e < (2::real) ^ 1024"
  shows "fl_pos (of_int m * 2 powr of_int e) = Num (of_int m * 2 powr of_int e)"
proof -
  let ?x = "of_int m * 2 powr of_int e :: real"
  define u where "u = ulp_exp ?x"
  have le: "u \<le> e" unfolding u_def by (rule ulp_exp_le[OF assms(1-3)])
  define d where "d = nat (e - u)"
  have e: "real_of_int e = real_of_int u + real d" using le by (simp add: d_def)
  have p: "2 powr real_of_int e = 2 powr real_of_int u * 2 ^ d"
    unfolding e by (simp add: powr_add powr_realpow)
  have "?x / 2 powr of_int u = of_int m * 2 ^ d"
    unfolding p by simp
  also have "\<dots> = of_int (m * 2 ^ d)"
    by simp
  finally have q: "?x / 2 powr of_int u = of_int (m * 2 ^ d)" .
  have r: "round_even (?x / 2 powr of_int u) = m * 2 ^ d"
    by (simp only: q round_even_int)
  have "real_of_int (m * 2 ^ d) * 2 powr of_int u = ?x"
    by (simp add: p)
  then have "of_int (round_even (?x / 2 powr of_int u)) * 2 powr of_int u = ?x"
    by (simp only: r)
  then show ?thesis
    using assms(4) unfolding fl_pos_def Let_def u_def[symmetric] by (simp only: not_le[symmetric] if_False)
qed


lemma fl_exact:
  assumes "\<bar>m\<bar> < 2 ^ 53" and "- 1074 \<le> e"
    and "\<bar>of_int m * 2 powr of_int e\<bar> < (2::real) ^ 1024"
  shows "fl (of_int m * 2 powr of_int e) = Num (of_int m * 2 powr of_int e)"
proof -
  consider "m = 0" | "0 < m" | "m < 0" by linarith
  then show ?thesis
  proof cases
    case 1
    then show ?thesis by (simp add: fl_def)
  next
    case 2
    then have "0 < real_of_int m * 2 powr of_int e" by simp
    moreover have "fl_pos (of_int m * 2 powr of_int e) = Num (of_int m * 2 powr of_int e)"
      using 2 assms by (intro fl_pos_exact) auto
    ultimately show ?thesis by (simp add: fl_def)
  next
    case 3
    then have neg: "real_of_int m * 2 powr of_int e < 0"
      by (simp add: mult_neg_pos)
    have "fl_pos (of_int (- m) * 2 powr of_int e) = Num (of_int (- m) * 2 powr of_int e)"
      using 3 assms by (intro fl_pos_exact) auto
    then have "fl_pos (- (of_int m * 2 powr of_int e)) = Num (- (of_int m * 2 powr of_int e))"
      by simp
    then show ?thesis
      using neg by (simp add: fl_def)
  qed
qed

lemma fl_int: "\<bar>m\<bar> < 2 ^ 53 \<Longrightarrow> fl (of_int m) = Num (of_int m)"
proof -
  assume m: "\<bar>m\<bar> < 2 ^ 53"
  then have "real_of_int \<bar>m\<bar> < real_of_int (2 ^ 53)"
    by (simp only: of_int_less_iff)
  also have "\<dots> \<le> 2 ^ 1024"
    by simp
  finally have "\<bar>of_int m * 2 powr of_int 0\<bar> < (2::real) ^ 1024"
    by simp
  from fl_exact[OF m _ this] show ?thesis by simp
qed

lemma fl_dyadic:
  assumes "\<bar>m\<bar> < 2 ^ 53" and "k \<le> 1074"
  shows "fl (of_int m / 2 ^ k) = Num (of_int m / 2 ^ k)"
proof -
  have "real_of_int \<bar>m\<bar> < real_of_int (2 ^ 53)"
    using assms(1) by (simp only: of_int_less_iff)
  also have "\<dots> \<le> 2 ^ 1024"
    by simp
  finally have b: "\<bar>real_of_int m\<bar> < 2 ^ 1024"
    by simp
  have x: "of_int m * 2 powr of_int (- int k) = real_of_int m / 2 ^ k"
    by (simp add: powr_minus powr_realpow field_simps)
  have "\<bar>real_of_int m / 2 ^ k\<bar> \<le> \<bar>real_of_int m\<bar>"
    by (simp add: field_simps mult_le_cancel_left1)
  then have "\<bar>of_int m * 2 powr of_int (- int k)\<bar> < (2::real) ^ 1024"
    unfolding x using b by linarith
  from fl_exact[OF assms(1) _ this] assms(2) show ?thesis
    unfolding x by simp
qed

lemma fl_pow2: "n < 1024 \<Longrightarrow> fl (2 ^ n) = Num (2 ^ n)"
proof -
  assume n: "n < 1024"
  have x: "of_int 1 * 2 powr of_int (int n) = (2::real) ^ n"
    by (simp add: powr_realpow)
  have "(2::real) ^ n < 2 ^ 1024"
    using n by (simp only: power_strict_increasing_iff one_less_numeral_iff semiring_norm)
  then have "\<bar>of_int 1 * 2 powr of_int (int n)\<bar> < (2::real) ^ 1024"
    unfolding x by simp
  from fl_exact[OF _ _ this] show ?thesis
    unfolding x by simp
qed

lemma fl_pos_overflow:
  assumes "(2::real) ^ 1024 \<le> x"
  shows "fl_pos x = PInf"
proof -
  have pos: "0 < x" using assms by (smt (verit) zero_less_power)
  define k where "k = \<lfloor>log 2 x\<rfloor>"
  have "log 2 ((2::real) ^ 1024) \<le> log 2 x"
    using assms pos by (simp only: log_le_cancel_iff one_less_numeral_iff semiring_norm zero_less_power zero_less_numeral)
  moreover have "log 2 ((2::real) ^ 1024) = real 1024"
    by (rule log_pow_cancel) simp_all
  ultimately have "1024 \<le> log 2 x"
    by (simp only: of_nat_numeral)
  then have k: "1024 \<le> k"
    unfolding k_def by (simp add: le_floor_iff)
  have u: "ulp_exp x = k - 52"
    using k by (simp add: ulp_exp_def k_def)
  have "real_of_int k \<le> log 2 x"
    unfolding k_def by simp
  then have xk: "2 powr real_of_int k \<le> x"
    using pos by (simp add: le_log_iff)
  define q where "q = 2 powr real_of_int (k - 52)"
  have qpos: "0 < q" by (simp add: q_def)
  have kq: "2 powr real_of_int k = 2 ^ 52 * q"
    unfolding q_def by (simp add: powr_diff powr_realpow [symmetric] del: powr_numeral)
  have "real_of_int (2 ^ 52) \<le> x / q"
    using xk qpos unfolding kq by (simp add: field_simps)
  then have "2 ^ 52 \<le> round_even (x / q)"
    by (rule round_even_ge)
  then have "real_of_int (2 ^ 52) \<le> real_of_int (round_even (x / q))"
    by (simp only: of_int_le_iff)
  then have "2 ^ 52 * q \<le> real_of_int (round_even (x / q)) * q"
    using qpos by simp
  moreover have "(2::real) ^ 1024 \<le> 2 powr real_of_int k"
  proof -
    have "(2::real) powr real_of_int 1024 \<le> 2 powr real_of_int k"
      using k by (intro powr_mono) simp_all
    moreover have "(2::real) powr real_of_int 1024 = 2 ^ 1024"
      by simp
    ultimately show ?thesis by (simp only:)
  qed
  ultimately have "(2::real) ^ 1024 \<le> real_of_int (round_even (x / q)) * q"
    unfolding kq by linarith
  then show ?thesis
    unfolding fl_pos_def Let_def u q_def[symmetric] by (simp only: if_True)
qed


lemma ulp_exp_double:
  assumes "2 powr (- 1022) \<le> x"
  shows "ulp_exp (2 * x) = ulp_exp x + 1"
proof -
  have pos: "0 < x"
    using assms by (smt (verit) powr_gt_zero)
  have "log 2 (2 powr (- 1022)) \<le> log 2 x"
    using assms pos by (simp del: powr_numeral log_powr_cancel)
  then have "- 1022 \<le> log 2 x"
    by simp
  then have lo: "- 1022 \<le> \<lfloor>log 2 x\<rfloor>"
    by (simp add: le_floor_iff)
  have "log 2 (2 * x) = 1 + log 2 x"
    using pos by (simp add: log_mult)
  then have "\<lfloor>log 2 (2 * x)\<rfloor> = \<lfloor>log 2 x\<rfloor> + 1"
    by simp
  then show ?thesis
    using lo by (simp add: ulp_exp_def)
qed

lemma fl_pos_double:
  assumes "2 powr (- 1022) \<le> x" and "fl_pos x = Num r" and "2 * r < 2 ^ 1024"
  shows "fl_pos (2 * x) = Num (2 * r)"
proof -
  define q where "q = 2 powr real_of_int (ulp_exp x)"
  define n where "n = round_even (x / q)"
  have qpos: "0 < q" by (simp add: q_def)
  have small: "\<not> 2 ^ 1024 \<le> real_of_int n * q"
    using assms(2) unfolding fl_pos_def Let_def q_def[symmetric] n_def[symmetric]
    by (auto split: if_splits)
  then have r: "r = real_of_int n * q"
    using assms(2) unfolding fl_pos_def Let_def q_def[symmetric] n_def[symmetric]
    by (simp only: if_False jsnum.inject)
  have q2: "2 powr real_of_int (ulp_exp (2 * x)) = 2 * q"
    unfolding ulp_exp_double[OF assms(1)] q_def by (simp add: powr_add)
  have div: "2 * x / (2 * q) = x / q"
    by simp
  have "\<not> 2 ^ 1024 \<le> real_of_int n * (2 * q)"
    using assms(3) unfolding r by simp
  then show ?thesis
    unfolding fl_pos_def Let_def q2 div n_def[symmetric] r
    by (simp only: if_False) simp
qed

lemma fl_double:
  assumes "x = 0 \<or> 2 powr (- 1022) \<le> \<bar>x\<bar>" and "fl x = Num r"
    and "\<bar>2 * r\<bar> < 2 ^ 1024"
  shows "fl (2 * x) = Num (2 * r)"
proof -
  consider "x = 0" | "0 < x" | "x < 0" by linarith
  then show ?thesis
  proof cases
    case 1
    then show ?thesis using assms(2) by (simp add: fl_def)
  next
    case 2
    then have "fl_pos x = Num r" using assms(2) by (simp add: fl_def)
    moreover have "2 powr (- 1022) \<le> x" using 2 assms(1) by simp
    moreover have "2 * r < 2 ^ 1024" using assms(3) by linarith
    ultimately have "fl_pos (2 * x) = Num (2 * r)"
      by (intro fl_pos_double)
    then show ?thesis using 2 by (simp add: fl_def)
  next
    case 3
    then have "- fl_pos (- x) = Num r" using assms(2) by (simp add: fl_def)
    then have "fl_pos (- x) = Num (- r)"
      by (cases "fl_pos (- x)") simp_all
    moreover have "2 powr (- 1022) \<le> - x" using 3 assms(1) by simp
    moreover have "2 * (- r) < 2 ^ 1024" using assms(3) by linarith
    ultimately have "fl_pos (2 * (- x)) = Num (2 * (- r))"
      by (intro fl_pos_double)
    then have "fl_pos (- (2 * x)) = Num (- (2 * r))"
      by simp
    then show ?thesis using 3 by (simp add: fl_def)
  qed
qed

lemma fl_zero [simp]: "fl 0 = Num 0"
  by (simp add: fl_def)

lemma mul64_Num: "mul64 (Num x) (Num y) = fl (x * y)"
  by (simp add: mul64_def)

lemma fl_overflow: "(2::real) ^ 1024 \<le> x \<Longrightarrow> fl x = PInf"
proof -
  assume b: "(2::real) ^ 1024 \<le> x"
  then have "0 < x" by (smt (verit) zero_less_power)
  then show ?thesis
    using fl_pos_overflow[OF b] by (simp add: fl_def)
qed

lemmas fl_values =
  fl_int [of 1, simplified] fl_int [of 2, simplified] fl_int [of 4, simplified]
  fl_int [of "- 1", simplified]
  fl_dyadic [of 1 1, simplified] fl_dyadic [of 1 2, simplified] fl_dyadic [of 1 3, simplified]
  fl_dyadic [of 3 1, simplified] fl_dyadic [of 3 2, simplified] fl_dyadic [of 3 3, simplified]
  fl_dyadic [of 5 2, simplified] fl_dyadic [of 7 1, simplified] fl_dyadic [of 7 2, simplified] fl_dyadic [of 13 2, simplified]
  fl_dyadic [of 13 3, simplified]

lemmas eval_defs64 = bezierCurveThrough64_def draw_segment_def control_points64_def
  interior64_def tangent_cps64_def tangent64_def disp64_def h64_def add64_def sub64_def
  mul64_def div64_def sqrt64_def point_at_def cp_at_def cn_at_def Let_def upt_rec

lemma sqrt_values: "sqrt (9 / 64) = 3 / 8" "sqrt (1 / 16) = 1 / 4"
  by (rule real_sqrt_unique; simp add: power2_eq_square)+

section \<open>The loops in double precision\<close>

lemma interior64_ok:
  "1 \<le> i \<Longrightarrow> i + 1 < length points \<Longrightarrow>
   interior64 points t cps i =
     Inr (cps[i := tangent_cps64 (points ! (i - 1)) (points ! i) (points ! (i + 1)) t])"
  by (simp add: interior64_def point_at_def)

lemma forM_interior64:
  "hi < length points \<Longrightarrow> 1 \<le> lo \<Longrightarrow> length cps = length points \<Longrightarrow>
   \<exists>cps'. forM [lo..<hi] (interior64 points t) cps = Inr cps' \<and> length cps' = length cps \<and>
     (\<forall>j<length cps. cps' ! j =
        (if lo \<le> j \<and> j < hi
         then tangent_cps64 (points ! (j - 1)) (points ! j) (points ! (j + 1)) t
         else cps ! j))"
proof (induction hi)
  case 0
  then show ?case by simp
next
  case (Suc hi)
  show ?case
  proof (cases "lo \<le> hi")
    case False
    then show ?thesis by auto
  next
    case True
    from Suc obtain cps' where
      run: "forM [lo..<hi] (interior64 points t) cps = Inr cps'" and
      len: "length cps' = length cps" and
      nth: "\<forall>j<length cps. cps' ! j =
        (if lo \<le> j \<and> j < hi
         then tangent_cps64 (points ! (j - 1)) (points ! j) (points ! (j + 1)) t
         else cps ! j)"
      by force
    have step: "interior64 points t cps' hi =
      Inr (cps'[hi := tangent_cps64 (points ! (hi - 1)) (points ! hi) (points ! (hi + 1)) t])"
      using Suc.prems True by (intro interior64_ok) auto
    have "forM [lo..<Suc hi] (interior64 points t) cps =
      Inr (cps'[hi := tangent_cps64 (points ! (hi - 1)) (points ! hi) (points ! (hi + 1)) t])"
      using True run step by (simp add: forM_append)
    moreover have "\<forall>j<length cps.
      cps'[hi := tangent_cps64 (points ! (hi - 1)) (points ! hi) (points ! (hi + 1)) t] ! j =
        (if lo \<le> j \<and> j < Suc hi
         then tangent_cps64 (points ! (j - 1)) (points ! j) (points ! (j + 1)) t
         else cps ! j)"
      using nth len True by (auto simp: nth_list_update less_Suc_eq)
    ultimately show ?thesis using len by simp
  qed
qed

lemma control_points64_ok:
  assumes "3 \<le> length points"
  shows "\<exists>cps. control_points64 points t = Inr cps \<and> length cps = length points \<and>
    (\<forall>j. 1 \<le> j \<and> j + 1 < length points \<longrightarrow>
       cps ! j = tangent_cps64 (points ! (j - 1)) (points ! j) (points ! (j + 1)) t) \<and>
    cps ! 0 = \<lparr>cp = None, cn = Some
       (div64 (add64 (fst (points ! 0)) (fst (the (cp (cps ! 1))))) (Num 2),
        div64 (add64 (snd (points ! 0)) (snd (the (cp (cps ! 1))))) (Num 2))\<rparr> \<and>
    cps ! (length points - 1) = \<lparr>cp = Some
       (div64 (add64 (fst (points ! (length points - 1))) (fst (the (cn (cps ! (length points - 2)))))) (Num 2),
        div64 (add64 (snd (points ! (length points - 1))) (snd (the (cn (cps ! (length points - 2)))))) (Num 2)),
       cn = None\<rparr>"
proof -
  let ?l = "length points"
  let ?c0 = "map (\<lambda>_. \<lparr>cp = None, cn = None\<rparr>) points"
  let ?T = "\<lambda>j. tangent_cps64 (points ! (j - 1)) (points ! j) (points ! (j + 1)) t"
  have "\<exists>cps'. forM [1..<?l - 1] (interior64 points t) ?c0 = Inr cps' \<and> length cps' = length ?c0 \<and>
     (\<forall>j<length ?c0. cps' ! j = (if 1 \<le> j \<and> j < ?l - 1 then ?T j else ?c0 ! j))"
    using assms by (intro forM_interior64) auto
  then obtain c1 where
    run: "forM [1..<?l - 1] (interior64 points t) ?c0 = Inr c1" and
    len: "length c1 = ?l" and
    nth: "\<forall>j<?l. c1 ! j = (if 1 \<le> j \<and> j < ?l - 1 then ?T j else ?c0 ! j)"
    by auto
  have ne: "c1 \<noteq> []" "points \<noteq> []" using len assms by auto
  have c1_1: "c1 ! 1 = ?T 1" using nth assms by auto
  have c1_l2: "c1 ! (?l - 2) = ?T (?l - 2)" using nth assms by auto
  have cpT: "\<And>j. cp (?T j) \<noteq> None" "\<And>j. cn (?T j) \<noteq> None"
    by (simp_all add: tangent_cps64_def Let_def)
  obtain a where a: "cp (?T 1) = Some a" using cpT(1) by blast
  obtain b where b: "cn (?T (?l - 2)) = Some b" using cpT(2) by blast
  let ?c2 = "c1[0 := \<lparr>cp = None,
               cn = Some (div64 (add64 (fst (points ! 0)) (fst a)) (Num 2), div64 (add64 (snd (points ! 0)) (snd a)) (Num 2))\<rparr>]"
  let ?c3 = "?c2[?l - 1 := \<lparr>cp =
                     Some (div64 (add64 (fst (points ! (?l - 1))) (fst b)) (Num 2), div64 (add64 (snd (points ! (?l - 1))) (snd b)) (Num 2)),
                   cn = None\<rparr>]"
  have res: "control_points64 points t = Inr ?c3"
    using assms run len c1_1 c1_l2 a b
    by (auto simp add: control_points64_def Let_def point_at_def cp_at_def cn_at_def)
  have "\<forall>j. 1 \<le> j \<and> j + 1 < ?l \<longrightarrow> ?c3 ! j = ?T j"
    using nth len by (auto simp: nth_list_update)
  moreover have "?c3 ! 1 = ?T 1" "?c3 ! (?l - 2) = ?T (?l - 2)"
    using c1_1 c1_l2 assms len by (auto simp: nth_list_update)
  moreover have "?c3 ! 0 = \<lparr>cp = None,
               cn = Some (div64 (add64 (fst (points ! 0)) (fst a)) (Num 2), div64 (add64 (snd (points ! 0)) (snd a)) (Num 2))\<rparr>"
    using assms len ne by (auto simp add: nth_list_update)
  moreover have "?c3 ! (?l - 1) = \<lparr>cp =
                     Some (div64 (add64 (fst (points ! (?l - 1))) (fst b)) (Num 2), div64 (add64 (snd (points ! (?l - 1))) (snd b)) (Num 2)),
                   cn = None\<rparr>"
    using assms len ne by (auto simp add: nth_list_update)
  ultimately show ?thesis
    using res len a b by (intro exI[of _ ?c3]) simp
qed


lemma cp_tangent_cps64: "cp (tangent_cps64 a b c t) \<noteq> None"
  by (simp add: tangent_cps64_def Let_def)

lemma cn_tangent_cps64: "cn (tangent_cps64 a b c t) \<noteq> None"
  by (simp add: tangent_cps64_def Let_def)

lemma bezier_three64:
  assumes "3 \<le> length points"
  shows "\<exists>cps. control_points64 points (if falsy tension then Num (1 / 4) else tension) = Inr cps \<and>
     length cps = length points \<and>
     (\<forall>j. 1 \<le> j \<and> j + 1 < length points \<longrightarrow>
        cps ! j = tangent_cps64 (points ! (j - 1)) (points ! j) (points ! (j + 1))
                    (if falsy tension then Num (1 / 4) else tension)) \<and>
     (\<forall>i<length points - 1. cn (cps ! i) \<noteq> None \<and> cp (cps ! (i + 1)) \<noteq> None) \<and>
     bezierCurveThrough64 c points tension =
       Inr (c @ [BeginPath, MoveTo (fst (points ! 0)) (snd (points ! 0))] @
            map (\<lambda>i. curve_to (the (cn (cps ! i))) (the (cp (cps ! (i + 1)))) (points ! (i + 1)))
              [0..<length points - 1] @
            [Stroke])"
proof -
  let ?l = "length points"
  define t where "t = (if falsy tension then Num (1 / 4) else tension)"
  let ?T = "\<lambda>j. tangent_cps64 (points ! (j - 1)) (points ! j) (points ! (j + 1)) t"
  from control_points64_ok[OF assms, of t] obtain cps where
    cps: "control_points64 points t = Inr cps" and
    len: "length cps = ?l" and
    mid: "\<forall>j. 1 \<le> j \<and> j + 1 < ?l \<longrightarrow> cps ! j = ?T j" and
    first: "cn (cps ! 0) \<noteq> None" and
    last: "cp (cps ! (?l - 1)) \<noteq> None"
    by (metis cpoint.select_convs(1) cpoint.select_convs(2) option.distinct(1))
  have defined: "cn (cps ! i) \<noteq> None \<and> cp (cps ! (i + 1)) \<noteq> None" if "i < ?l - 1" for i
  proof
    show "cn (cps ! i) \<noteq> None"
    proof (cases "i = 0")
      case True
      then show ?thesis using first by simp
    next
      case False
      then have "cps ! i = ?T i" using mid that by auto
      then show ?thesis by (simp only: cn_tangent_cps64 not_False_eq_True)
    qed
    show "cp (cps ! (i + 1)) \<noteq> None"
    proof (cases "i + 1 = ?l - 1")
      case True
      then show ?thesis using last by simp
    next
      case False
      then have "cps ! (i + 1) = ?T (i + 1)" using mid that by auto
      then show ?thesis by (simp only: cp_tangent_cps64 not_False_eq_True)
    qed
  qed
  have "\<forall>i. 1 \<le> i \<and> i < ?l \<longrightarrow> cn (cps ! (i - 1)) \<noteq> None \<and> cp (cps ! i) \<noteq> None"
  proof (intro allI impI)
    fix i assume "1 \<le> i \<and> i < ?l"
    then have "i - 1 < ?l - 1" "i - 1 + 1 = i" by auto
    then show "cn (cps ! (i - 1)) \<noteq> None \<and> cp (cps ! i) \<noteq> None"
      using defined[of "i - 1"] by simp
  qed
  then have loop: "forM [1..<?l] (draw_segment points cps) s =
     Inr (s @ map (\<lambda>i. curve_to (the (cn (cps ! (i - 1)))) (the (cp (cps ! i))) (points ! i)) [1..<?l])" for s
    using len by (intro forM_draw) auto
  have shift: "map (\<lambda>i. curve_to (the (cn (cps ! (i - 1)))) (the (cp (cps ! i))) (points ! i)) [1..<?l] =
     map (\<lambda>i. curve_to (the (cn (cps ! i))) (the (cp (cps ! (i + 1)))) (points ! (i + 1))) [0..<?l - 1]"
  proof -
    have "map Suc [0..<?l - 1] = [Suc 0..<Suc (?l - 1)]"
      by (rule map_Suc_upt)
    moreover have "Suc (?l - 1) = ?l"
      using assms by simp
    ultimately have "[1..<?l] = map Suc [0..<?l - 1]"
      by (simp only: One_nat_def)
    then show ?thesis by (simp add: comp_def)
  qed
  have "bezierCurveThrough64 c points tension =
       Inr (c @ [BeginPath, MoveTo (fst (points ! 0)) (snd (points ! 0))] @
            map (\<lambda>i. curve_to (the (cn (cps ! i))) (the (cp (cps ! (i + 1)))) (points ! (i + 1)))
              [0..<?l - 1] @
            [Stroke])"
    using assms cps loop shift unfolding t_def
    by (auto simp add: bezierCurveThrough64_def Let_def point_at_def)
  then show ?thesis using cps len mid defined unfolding t_def by blast
qed

section \<open>The values of the interior control points\<close>

lemma h64_exact:
  assumes "fl (x * x) = Num (x * x)" and "fl (y * y) = Num (y * y)"
    and "fl (x * x + y * y) = Num (x * x + y * y)"
    and "fl (sqrt (x * x + y * y)) = Num (sqrt (x * x + y * y))"
  shows "h64 (Num x) (Num y) = h (Num x) (Num y)"
proof -
  have "\<not> x * x + y * y < 0" by (simp add: not_less)
  then show ?thesis
    by (simp add: h64_def sqrt64_def add64_def mul64_def assms)
qed

lemma tangent64_exact:
  assumes "\<forall>v\<in>set (steps a p b t). fl v = Num v" and "a \<noteq> b"
  shows "tangent64 (jpoint a) (jpoint b) = tangent (jpoint a) (jpoint b)"
proof -
  let ?rdx = "fst b - fst a" and ?rdy = "snd b - snd a"
  let ?rd = "sqrt (?rdx * ?rdx + ?rdy * ?rdy)"
  have e: "fl ?rdx = Num ?rdx" "fl ?rdy = Num ?rdy"
    "fl (?rdx * ?rdx) = Num (?rdx * ?rdx)" "fl (?rdy * ?rdy) = Num (?rdy * ?rdy)"
    "fl (?rdx * ?rdx + ?rdy * ?rdy) = Num (?rdx * ?rdx + ?rdy * ?rdy)"
    "fl ?rd = Num ?rd" "fl (?rdx / ?rd) = Num (?rdx / ?rd)" "fl (?rdy / ?rd) = Num (?rdy / ?rd)"
    using assms(1) by (simp_all add: steps_def Let_def)
  have hh: "h64 (Num ?rdx) (Num ?rdy) = Num ?rd"
    using h64_exact[OF e(3) e(4) e(5) e(6)] by simp
  have nz: "?rd \<noteq> 0"
    using assms(2) spec_dist_zero_iff[of a b] by (simp add: spec_dist_def power2_eq_square)
  show ?thesis
    using nz by (simp add: tangent64_def tangent_def jpoint_def Let_def sub64_def div64_def e hh)
qed


lemma tangent_cps64_exact:
  assumes "\<forall>v\<in>set (steps a p b t). fl v = Num v" and "a \<noteq> b"
  shows "tangent_cps64 (jpoint a) (jpoint p) (jpoint b) (Num t) =
    tangent_cps (jpoint a) (jpoint p) (jpoint b) (Num t)"
proof -
  let ?rdx = "fst b - fst a" and ?rdy = "snd b - snd a"
  let ?rd = "sqrt (?rdx * ?rdx + ?rdy * ?rdy)"
  let ?dx = "?rdx / ?rd" and ?dy = "?rdy / ?rd"
  let ?ux = "fst p - fst a" and ?uy = "snd p - snd a"
  let ?dp = "sqrt (?ux * ?ux + ?uy * ?uy)"
  let ?vx = "fst p - fst b" and ?vy = "snd p - snd b"
  let ?dn = "sqrt (?vx * ?vx + ?vy * ?vy)"
  have nz: "?rd \<noteq> 0"
    using assms(2) spec_dist_zero_iff[of a b] by (simp add: spec_dist_def power2_eq_square)
  have tan: "tangent64 (jpoint a) (jpoint b) = (Num ?dx, Num ?dy)"
    unfolding tangent64_exact[OF assms]
    using nz by (simp add: tangent_def jpoint_def Let_def)
  have tan': "tangent (jpoint a) (jpoint b) = (Num ?dx, Num ?dy)"
    using nz by (simp add: tangent_def jpoint_def Let_def)
  have u: "fl ?ux = Num ?ux" "fl ?uy = Num ?uy"
    "fl (?ux * ?ux) = Num (?ux * ?ux)" "fl (?uy * ?uy) = Num (?uy * ?uy)"
    "fl (?ux * ?ux + ?uy * ?uy) = Num (?ux * ?ux + ?uy * ?uy)" "fl ?dp = Num ?dp"
    using assms(1) by (simp_all add: steps_def Let_def)
  have v: "fl ?vx = Num ?vx" "fl ?vy = Num ?vy"
    "fl (?vx * ?vx) = Num (?vx * ?vx)" "fl (?vy * ?vy) = Num (?vy * ?vy)"
    "fl (?vx * ?vx + ?vy * ?vy) = Num (?vx * ?vx + ?vy * ?vy)" "fl ?dn = Num ?dn"
    using assms(1) by (simp_all add: steps_def Let_def)
  have dp: "h64 (sub64 (Num (fst p)) (Num (fst a))) (sub64 (Num (snd p)) (Num (snd a))) = Num ?dp"
    using h64_exact[OF u(3) u(4) u(5) u(6)] by (simp add: sub64_def u)
  have dn: "h64 (sub64 (Num (fst p)) (Num (fst b))) (sub64 (Num (snd p)) (Num (snd b))) = Num ?dn"
    using h64_exact[OF v(3) v(4) v(5) v(6)] by (simp add: sub64_def v)
  have d: "fl (?dx * ?dp) = Num (?dx * ?dp)" "fl (?dx * ?dp * t) = Num (?dx * ?dp * t)"
    "fl (?dy * ?dp) = Num (?dy * ?dp)" "fl (?dy * ?dp * t) = Num (?dy * ?dp * t)"
    "fl (?dx * ?dn) = Num (?dx * ?dn)" "fl (?dx * ?dn * t) = Num (?dx * ?dn * t)"
    "fl (?dy * ?dn) = Num (?dy * ?dn)" "fl (?dy * ?dn * t) = Num (?dy * ?dn * t)"
    using assms(1) by (simp_all add: steps_def Let_def)
  have c: "fl (fst p - ?dx * ?dp * t) = Num (fst p - ?dx * ?dp * t)"
    "fl (snd p - ?dy * ?dp * t) = Num (snd p - ?dy * ?dp * t)"
    "fl (fst p + ?dx * ?dn * t) = Num (fst p + ?dx * ?dn * t)"
    "fl (snd p + ?dy * ?dn * t) = Num (snd p + ?dy * ?dn * t)"
    using assms(1) by (simp_all add: steps_def Let_def)
  have disp: "disp64 (Num ?dx) (Num ?dp) (Num t) = Num (?dx * ?dp * t)"
    "disp64 (Num ?dy) (Num ?dp) (Num t) = Num (?dy * ?dp * t)"
    "disp64 (Num ?dx) (Num ?dn) (Num t) = Num (?dx * ?dn * t)"
    "disp64 (Num ?dy) (Num ?dn) (Num t) = Num (?dy * ?dn * t)"
    by (simp_all only: disp64_def mul64_Num d)
  have l: "tangent_cps64 (jpoint a) (jpoint p) (jpoint b) (Num t) =
    \<lparr>cp = Some (Num (fst p - ?dx * ?dp * t), Num (snd p - ?dy * ?dp * t)),
     cn = Some (Num (fst p + ?dx * ?dn * t), Num (snd p + ?dy * ?dn * t))\<rparr>"
    unfolding tangent_cps64_def Let_def tan
    by (simp only: jpoint_def fst_conv snd_conv dp dn disp)
      (simp only: sub64_def add64_def minus_Num plus_jsnum.simps rnd.simps c)
  have r: "tangent_cps (jpoint a) (jpoint p) (jpoint b) (Num t) =
    \<lparr>cp = Some (Num (fst p - ?dx * ?dp * t), Num (snd p - ?dy * ?dp * t)),
     cn = Some (Num (fst p + ?dx * ?dn * t), Num (snd p + ?dy * ?dn * t))\<rparr>"
    unfolding tangent_cps_def Let_def tan'
    by (simp add: jpoint_def)
  show ?thesis
    unfolding l r ..
qed

lemma fl_neg: "fl (- x) = - fl x"
  by (cases "fl_pos x"; cases "fl_pos (- x)"; simp add: fl_def)

lemma huge_facts:
  "fl huge = Num huge" "fl (2 * huge) = Num (2 * huge)" "fl (- huge) = Num (- huge)"
  "2 ^ 1024 \<le> huge * huge"
proof -
  show a: "fl huge = Num huge"
    unfolding huge_def by (rule fl_pow2) simp
  have "2 * huge = 2 ^ 601"
    by (simp add: huge_def)
  moreover have "fl (2 ^ 601) = Num (2 ^ 601)"
    by (rule fl_pow2) simp
  ultimately show "fl (2 * huge) = Num (2 * huge)"
    by (simp only:)
  show "fl (- huge) = Num (- huge)"
    by (simp add: fl_neg a)
  show "2 ^ 1024 \<le> huge * huge"
    by (simp add: huge_def)
qed

lemma h64_overflow:
  assumes "2 ^ 1024 \<le> y * y"
  shows "h64 (Num y) (Num 0) = PInf"
  by (simp add: h64_def mul64_def add64_def sqrt64_def fl_overflow[OF assms])

lemma overflow_tangent:
  assumes "fl (2 * X) = Num (2 * X)" and "2 ^ 1024 \<le> X * X"
  shows "tangent64 (Num 0, Num 0) (Num (2 * X), Num 0) = (Num 0, Num 0)"
proof -
  have "X * X \<le> (2 * X) * (2 * X)"
    by (simp add: mult_le_cancel_right1)
  then have "2 ^ 1024 \<le> (2 * X) * (2 * X)"
    using assms(2) by linarith
  then have "h64 (Num (2 * X)) (Num 0) = PInf"
    by (rule h64_overflow)
  then show ?thesis
    by (simp add: tangent64_def Let_def sub64_def div64_def assms(1))
qed

lemma overflow_cps:
  assumes "fl X = Num X" and "fl (2 * X) = Num (2 * X)" and "fl (- X) = Num (- X)"
    and "2 ^ 1024 \<le> X * X"
  shows "tangent_cps64 (Num 0, Num 0) (Num X, Num 0) (Num (2 * X), Num 0) t =
    \<lparr>cp = Some (NaN, NaN), cn = Some (NaN, NaN)\<rparr>"
proof -
  have dp: "h64 (Num X) (Num 0) = PInf"
    by (rule h64_overflow[OF assms(4)])
  have "2 ^ 1024 \<le> (- X) * (- X)"
    using assms(4) by simp
  then have dn: "h64 (Num (- X)) (Num 0) = PInf"
    by (rule h64_overflow)
  have s1: "sub64 (Num X) (Num 0) = Num X" "sub64 (Num 0) (Num 0) = Num 0"
    "sub64 (Num X) (Num (2 * X)) = Num (- X)"
    by (simp_all add: sub64_def assms)
  have disp: "disp64 (Num 0) PInf t = NaN"
    by (simp add: disp64_def mul64_def)
  show ?thesis
    unfolding tangent_cps64_def Let_def overflow_tangent[OF assms(2) assms(4)]
    by (simp only: fst_conv snd_conv s1 dp dn disp) (simp add: sub64_def add64_def)
qed



lemma fl_pos_dyadic:
  assumes "fl_pos x = Num r"
  shows "\<exists>n k. r * 2 ^ k = real_of_int n"
proof -
  define u where "u = ulp_exp x"
  define n where "n = round_even (x / 2 powr of_int u)"
  have r: "r = of_int n * 2 powr of_int u"
    using assms unfolding fl_pos_def Let_def u_def[symmetric] n_def[symmetric]
    by (auto split: if_splits)
  show ?thesis
  proof (cases "0 \<le> u")
    case True
    then have "2 powr real_of_int u = 2 ^ nat u"
      by (simp add: powr_realpow [symmetric])
    then have "r * 2 ^ 0 = real_of_int (n * 2 ^ nat u)"
      unfolding r by simp
    then show ?thesis by blast
  next
    case False
    then have "2 powr real_of_int u * 2 ^ nat (- u) = 1"
      by (simp add: powr_realpow [symmetric] powr_add [symmetric])
    then have "r * 2 ^ nat (- u) = real_of_int n"
      unfolding r by simp
    then show ?thesis by blast
  qed
qed

lemma fl_dyadic_form:
  assumes "fl x = Num r"
  shows "\<exists>n k. r * 2 ^ k = real_of_int n"
proof -
  consider "x = 0" | "0 < x" | "x < 0" by linarith
  then show ?thesis
  proof cases
    case 1
    then have "r * 2 ^ 0 = real_of_int 0" using assms by simp
    then show ?thesis by blast
  next
    case 2
    then show ?thesis using assms fl_pos_dyadic[of x r] by (simp add: fl_def)
  next
    case 3
    then have "- fl_pos (- x) = Num r" using assms by (simp add: fl_def)
    then have "fl_pos (- x) = Num (- r)"
      by (cases "fl_pos (- x)") simp_all
    from fl_pos_dyadic[OF this] obtain n k where "- r * 2 ^ k = real_of_int n"
      by blast
    then have "r * 2 ^ k = real_of_int (- n)" by simp
    then show ?thesis by blast
  qed
qed

lemma fifth_not_dyadic: "(m::int) * 2 ^ k = 5 * n \<Longrightarrow> 5 dvd m"
proof -
  assume e: "m * 2 ^ k = 5 * n"
  have "coprime (5::int) (2 ^ k)"
    by (simp add: coprime_power_right_iff)
  moreover have "(5::int) dvd m * 2 ^ k"
    unfolding e by simp
  ultimately show ?thesis
    by (simp add: coprime_dvd_mult_left_iff)
qed

lemma fl_three_fifths: "fl (3 / 5) \<noteq> Num (3 / 5)"
proof
  assume "fl (3 / 5) = Num (3 / 5)"
  from fl_dyadic_form[OF this] obtain n k where "(3 / 5 :: real) * 2 ^ k = real_of_int n"
    by blast
  then have "real_of_int (3 * 2 ^ k) = real_of_int (5 * n)"
    by simp
  then have "(3::int) * 2 ^ k = 5 * n"
    by (simp only: of_int_eq_iff)
  then have "(5::int) dvd 3"
    by (rule fifth_not_dyadic)
  then show False by simp
qed

lemma tangent64_three_four:
  "tangent64 (Num 0, Num 0) (Num 3, Num 4) = (fl (3 / 5), fl (4 / 5))"
  by (simp add: tangent64_def h64_def sub64_def mul64_def add64_def sqrt64_def div64_def Let_def
      fl_int [of 3, simplified] fl_int [of 4, simplified] fl_int [of 9, simplified]
      fl_int [of 16, simplified] fl_int [of 25, simplified] fl_int [of 5, simplified])


section \<open>Scaling the tension\<close>

lemma disp64_double:
  assumes "scales (mul64 d l) t"
  shows "disp64 d l (Num (2 * t)) = Num 2 * disp64 d l (Num t)"
proof -
  from assms obtain a where a: "mul64 d l = Num a"
    by (auto simp: scales_def split: jsnum.splits)
  from assms a obtain r where r: "fl (a * t) = Num r" and small: "\<bar>2 * r\<bar> < 2 ^ 1024"
    by (auto simp: scales_def split: jsnum.splits)
  have "a * t = 0 \<or> 1 / 2 ^ 1022 \<le> \<bar>a * t\<bar>"
    using assms a by (auto simp: scales_def split: jsnum.splits)
  moreover have "(1::real) / 2 ^ 1022 = 2 powr (- 1022)"
    by (simp add: powr_minus_divide)
  ultimately have normal: "a * t = 0 \<or> 2 powr (- 1022) \<le> \<bar>a * t\<bar>"
    by (simp only:)
  have "fl (2 * (a * t)) = Num (2 * r)"
    by (rule fl_double[OF normal r small])
  moreover have "a * (2 * t) = 2 * (a * t)"
    by simp
  ultimately have "fl (a * (2 * t)) = Num (2 * r)"
    by (simp only:)
  then show ?thesis
    unfolding disp64_def a mul64_Num r by simp
qed

lemma control_points64_interior:
  assumes "3 \<le> length ps" and "1 \<le> i" and "i \<le> length ps - 2"
  shows "\<exists>cps. control_points64 (map jpoint ps) t = Inr cps \<and>
     cps ! i = tangent_cps64 (jpoint (ps ! (i - 1))) (jpoint (ps ! i)) (jpoint (ps ! (i + 1))) t"
proof -
  have len: "3 \<le> length (map jpoint ps)" using assms by simp
  from control_points64_ok[OF len, of t] obtain cps where
    cps: "control_points64 (map jpoint ps) t = Inr cps" and
    mid: "\<forall>j. 1 \<le> j \<and> j + 1 < length (map jpoint ps) \<longrightarrow>
       cps ! j = tangent_cps64 (map jpoint ps ! (j - 1)) (map jpoint ps ! j) (map jpoint ps ! (j + 1)) t"
    by blast
  have inside: "1 \<le> i \<and> i + 1 < length (map jpoint ps)" using assms by auto
  then have "cps ! i = tangent_cps64 (map jpoint ps ! (i - 1)) (map jpoint ps ! i) (map jpoint ps ! (i + 1)) t"
    using mid by blast
  moreover have "i - 1 < length ps" "i < length ps" "i + 1 < length ps" using inside by auto
  ultimately have "cps ! i =
     tangent_cps64 (jpoint (ps ! (i - 1))) (jpoint (ps ! i)) (jpoint (ps ! (i + 1))) t"
    by (simp only: nth_map)
  with cps show ?thesis by blast
qed

text \<open>
  Claim C5, as amended. For at least three points with real coordinates, a nonzero
  tension \<open>t\<close> and an interior index \<open>i\<close>, each coordinate of a control point of point
  \<open>i\<close> is the coordinate of the point minus (incoming) or plus (outgoing) a displacement
  \<^verbatim>\<open>d * dist * tension\<close>, where \<open>d\<close> is a component of the tangent and \<open>dist\<close> the
  distance to the previous or next point, neither depending on the tension. Doubling
  the tension doubles that displacement exactly, whenever the product \<open>d * dist\<close> is
  finite, its product with \<open>t\<close> is zero or in the range of the normal numbers, and the
  doubled value does not overflow. Nothing is said of the rounding of the final
  subtraction or addition, nor of the control points of the end points, which are
  midpoints: see the counterexample below.
\<close>

theorem interior_displacements_double:
  assumes "3 \<le> length ps" and "1 \<le> i" and "i \<le> length ps - 2" and "t \<noteq> 0"
  shows "\<exists>cps1 cps2 dx dy dp dn.
     control_points64 (map jpoint ps) (if falsy (Num t) then Num (1 / 4) else Num t) = Inr cps1 \<and>
     control_points64 (map jpoint ps)
       (if falsy (Num (2 * t)) then Num (1 / 4) else Num (2 * t)) = Inr cps2 \<and>
     (dx, dy) = tangent64 (jpoint (ps ! (i - 1))) (jpoint (ps ! (i + 1))) \<and>
     dp = h64 (sub64 (Num (fst (ps ! i))) (Num (fst (ps ! (i - 1)))))
              (sub64 (Num (snd (ps ! i))) (Num (snd (ps ! (i - 1))))) \<and>
     dn = h64 (sub64 (Num (fst (ps ! i))) (Num (fst (ps ! (i + 1)))))
              (sub64 (Num (snd (ps ! i))) (Num (snd (ps ! (i + 1))))) \<and>
     cps1 ! i =
       \<lparr>cp = Some (sub64 (Num (fst (ps ! i))) (disp64 dx dp (Num t)),
                   sub64 (Num (snd (ps ! i))) (disp64 dy dp (Num t))),
        cn = Some (add64 (Num (fst (ps ! i))) (disp64 dx dn (Num t)),
                   add64 (Num (snd (ps ! i))) (disp64 dy dn (Num t)))\<rparr> \<and>
     cps2 ! i =
       \<lparr>cp = Some (sub64 (Num (fst (ps ! i))) (disp64 dx dp (Num (2 * t))),
                   sub64 (Num (snd (ps ! i))) (disp64 dy dp (Num (2 * t)))),
        cn = Some (add64 (Num (fst (ps ! i))) (disp64 dx dn (Num (2 * t))),
                   add64 (Num (snd (ps ! i))) (disp64 dy dn (Num (2 * t))))\<rparr> \<and>
     (\<forall>d\<in>{dx, dy}. \<forall>l\<in>{dp, dn}.
        scales (mul64 d l) t \<longrightarrow>
        disp64 d l (Num (2 * t)) = Num 2 * disp64 d l (Num t))"
proof -
  have eff: "(if falsy (Num t) then Num (1 / 4) else Num t) = Num t"
    "(if falsy (Num (2 * t)) then Num (1 / 4) else Num (2 * t)) = Num (2 * t)"
    using assms(4) by simp_all
  from control_points64_interior[OF assms(1-3), of "Num t"] obtain cps1 where
    cps1: "control_points64 (map jpoint ps) (Num t) = Inr cps1" and
    nth1: "cps1 ! i =
      tangent_cps64 (jpoint (ps ! (i - 1))) (jpoint (ps ! i)) (jpoint (ps ! (i + 1))) (Num t)"
    by blast
  from control_points64_interior[OF assms(1-3), of "Num (2 * t)"] obtain cps2 where
    cps2: "control_points64 (map jpoint ps) (Num (2 * t)) = Inr cps2" and
    nth2: "cps2 ! i =
      tangent_cps64 (jpoint (ps ! (i - 1))) (jpoint (ps ! i)) (jpoint (ps ! (i + 1))) (Num (2 * t))"
    by blast
  define dx where "dx = fst (tangent64 (jpoint (ps ! (i - 1))) (jpoint (ps ! (i + 1))))"
  define dy where "dy = snd (tangent64 (jpoint (ps ! (i - 1))) (jpoint (ps ! (i + 1))))"
  define dp where "dp = h64 (sub64 (Num (fst (ps ! i))) (Num (fst (ps ! (i - 1)))))
              (sub64 (Num (snd (ps ! i))) (Num (snd (ps ! (i - 1)))))"
  define dn where "dn = h64 (sub64 (Num (fst (ps ! i))) (Num (fst (ps ! (i + 1)))))
              (sub64 (Num (snd (ps ! i))) (Num (snd (ps ! (i + 1)))))"
  have form: "tangent_cps64 (jpoint (ps ! (i - 1))) (jpoint (ps ! i)) (jpoint (ps ! (i + 1))) u =
       \<lparr>cp = Some (sub64 (Num (fst (ps ! i))) (disp64 dx dp u),
                   sub64 (Num (snd (ps ! i))) (disp64 dy dp u)),
        cn = Some (add64 (Num (fst (ps ! i))) (disp64 dx dn u),
                   add64 (Num (snd (ps ! i))) (disp64 dy dn u))\<rparr>" for u
    by (simp add: tangent_cps64_def Let_def dx_def dy_def dp_def dn_def jpoint_def)
  have dbl: "\<forall>d\<in>{dx, dy}. \<forall>l\<in>{dp, dn}.
        scales (mul64 d l) t \<longrightarrow>
        disp64 d l (Num (2 * t)) = Num 2 * disp64 d l (Num t)"
    using disp64_double by blast
  have tan: "(dx, dy) = tangent64 (jpoint (ps ! (i - 1))) (jpoint (ps ! (i + 1)))"
    by (simp add: dx_def dy_def)
  show ?thesis
    unfolding eff
    using cps1 cps2 tan dp_def dn_def nth1[unfolded form] nth2[unfolded form] dbl
    by blast
qed

theorem interior_displacements_double_witness:
  "3 \<le> length [(0, 0), (1, 0), (2, 0) :: real \<times> real] \<and> (1 / 4 :: real) \<noteq> 0 \<and>
   tangent64 (Num 0, Num 0) (Num 2, Num 0) = (Num 1, Num 0) \<and>
   scales (mul64 (Num 1) (Num 1)) (1 / 4) \<and>
   disp64 (Num 1) (Num 1) (Num (1 / 4)) = Num (1 / 4) \<and>
   disp64 (Num 1) (Num 1) (Num (2 * (1 / 4))) = Num 2 * disp64 (Num 1) (Num 1) (Num (1 / 4))"
proof -
  let ?ps = "[(0, 0), (1, 0), (2, 0)] :: (real \<times> real) list"
  have h1: "3 \<le> length ?ps" by simp
  have h2: "(1::nat) \<le> 1" by simp
  have h3: "1 \<le> length ?ps - 2" by simp
  have h4: "(1 / 4 :: real) \<noteq> 0" by simp
  have tan: "tangent64 (Num 0, Num 0) (Num 2, Num 0) = (Num 1, Num 0)"
    by (simp add: eval_defs64 fl_values)
  have dist: "h64 (sub64 (Num 1) (Num 0)) (sub64 (Num 0) (Num 0)) = Num 1"
    by (simp add: eval_defs64 fl_values)
  have sc: "scales (mul64 (Num 1) (Num 1)) (1 / 4)"
    by (simp add: scales_def mul64_def fl_values)
  have val: "disp64 (Num 1) (Num 1) (Num (1 / 4)) = Num (1 / 4)"
    by (simp add: disp64_def mul64_def fl_values)
  from interior_displacements_double [OF h1 h2 h3 h4] obtain dx dy dp dn where
    t: "(dx, dy) = tangent64 (jpoint (?ps ! (1 - 1))) (jpoint (?ps ! (1 + 1)))" and
    p: "dp = h64 (sub64 (Num (fst (?ps ! 1))) (Num (fst (?ps ! (1 - 1)))))
              (sub64 (Num (snd (?ps ! 1))) (Num (snd (?ps ! (1 - 1)))))" and
    all: "\<forall>d\<in>{dx, dy}. \<forall>l\<in>{dp, dn}.
        scales (mul64 d l) (1 / 4) \<longrightarrow>
        disp64 d l (Num (2 * (1 / 4))) = Num 2 * disp64 d l (Num (1 / 4))"
    by blast
  have "dx = Num 1" using t tan by (simp add: jpoint_def)
  moreover have "dp = Num 1" using p dist by simp
  ultimately have "scales (mul64 (Num 1) (Num 1)) (1 / 4) \<longrightarrow>
        disp64 (Num 1) (Num 1) (Num (2 * (1 / 4))) = Num 2 * disp64 (Num 1) (Num 1) (Num (1 / 4))"
    using all by blast
  with sc have "disp64 (Num 1) (Num 1) (Num (2 * (1 / 4))) =
      Num 2 * disp64 (Num 1) (Num 1) (Num (1 / 4))"
    by blast
  then show ?thesis
    by (intro conjI) (rule h1, rule h4, rule tan, rule sc, rule val, assumption)
qed

lemma fl_tie_below_one: "fl (1 - 1 / 2 ^ 54) = Num 1"
proof -
  define x :: real where "x = 1 - 1 / 2 ^ 54"
  have pos: "0 < x" and lt: "x < 1" and ge: "1 / 2 \<le> x"
    by (simp_all add: x_def)
  have "log 2 x < 0"
    using pos lt by simp
  moreover have "- 1 \<le> log 2 x"
    using pos ge by (simp add: le_log_iff powr_minus_divide)
  ultimately have "\<lfloor>log 2 x\<rfloor> = - 1"
    by (simp add: floor_eq_iff)
  then have u: "ulp_exp x = - 53"
    by (simp add: ulp_exp_def)
  have q: "(2::real) powr real_of_int (- 53) = 1 / 2 ^ 53"
    by (simp add: powr_minus_divide)
  have d: "x / (1 / 2 ^ 53) = 2 ^ 53 - 1 / 2"
    by (simp add: x_def)
  have f: "\<lfloor>(2::real) ^ 53 - 1 / 2\<rfloor> = 2 ^ 53 - 1"
    by (simp add: floor_eq_iff)
  have "round_even (x / (1 / 2 ^ 53)) = 2 ^ 53"
    unfolding d by (simp add: round_even_def Let_def f)
  then have "fl_pos x = Num 1"
    unfolding fl_pos_def Let_def u q by simp
  then show ?thesis
    using pos unfolding x_def by (simp add: fl_def)
qed

text \<open>
  Claim C5 as stated fails. For the control points of the end points: with the points
  \<open>(0, 0)\<close>, \<open>(1, 0)\<close>, \<open>(2, 0)\<close>, where every operation is exact in double
  precision, the outgoing control point of the first point is \<open>(3/8, 0)\<close> with tension
  \<open>1/4\<close> and \<open>(1/4, 0)\<close> with tension \<open>1/2\<close>: its distance to the first point shrinks
  from \<open>3/8\<close> to \<open>1/4\<close> instead of doubling. For an interior point, by the rounding of
  the final subtraction: with the same points and the tension 2 to the power -54, the
  incoming control point of \<open>(1, 0)\<close> is \<open>(1, 0)\<close> itself, at offset 0, and with twice
  that tension it is at offset 2 to the power -53 from it.
\<close>

theorem offsets_not_doubled:
  "bezierCurveThrough64 [] [(Num 0, Num 0), (Num 1, Num 0), (Num 2, Num 0)] (Num (1 / 4)) =
     Inr [BeginPath, MoveTo (Num 0) (Num 0),
          BezierCurveTo (Num (3 / 8)) (Num 0) (Num (3 / 4)) (Num 0) (Num 1) (Num 0),
          BezierCurveTo (Num (5 / 4)) (Num 0) (Num (13 / 8)) (Num 0) (Num 2) (Num 0),
          Stroke] \<and>
   bezierCurveThrough64 [] [(Num 0, Num 0), (Num 1, Num 0), (Num 2, Num 0)] (Num (1 / 2)) =
     Inr [BeginPath, MoveTo (Num 0) (Num 0),
          BezierCurveTo (Num (1 / 4)) (Num 0) (Num (1 / 2)) (Num 0) (Num 1) (Num 0),
          BezierCurveTo (Num (3 / 2)) (Num 0) (Num (7 / 4)) (Num 0) (Num 2) (Num 0),
          Stroke] \<and>
   dist_to (Num 0, Num 0) (Num (3 / 8), Num 0) = Num (3 / 8) \<and>
   dist_to (Num 0, Num 0) (Num (1 / 4), Num 0) = Num (1 / 4) \<and>
   dist_to (Num 0, Num 0) (Num (1 / 4), Num 0) \<noteq>
     Num 2 * dist_to (Num 0, Num 0) (Num (3 / 8), Num 0) \<and>
   cp (tangent_cps64 (Num 0, Num 0) (Num 1, Num 0) (Num 2, Num 0) (Num (1 / 2 ^ 54))) =
     Some (Num 1, Num 0) \<and>
   cp (tangent_cps64 (Num 0, Num 0) (Num 1, Num 0) (Num 2, Num 0) (Num (2 * (1 / 2 ^ 54)))) =
     Some (Num (1 - 1 / 2 ^ 53), Num 0)"
proof -
  have ends: "bezierCurveThrough64 [] [(Num 0, Num 0), (Num 1, Num 0), (Num 2, Num 0)] (Num (1 / 4)) =
     Inr [BeginPath, MoveTo (Num 0) (Num 0),
          BezierCurveTo (Num (3 / 8)) (Num 0) (Num (3 / 4)) (Num 0) (Num 1) (Num 0),
          BezierCurveTo (Num (5 / 4)) (Num 0) (Num (13 / 8)) (Num 0) (Num 2) (Num 0),
          Stroke] \<and>
   bezierCurveThrough64 [] [(Num 0, Num 0), (Num 1, Num 0), (Num 2, Num 0)] (Num (1 / 2)) =
     Inr [BeginPath, MoveTo (Num 0) (Num 0),
          BezierCurveTo (Num (1 / 4)) (Num 0) (Num (1 / 2)) (Num 0) (Num 1) (Num 0),
          BezierCurveTo (Num (3 / 2)) (Num 0) (Num (7 / 4)) (Num 0) (Num 2) (Num 0),
          Stroke] \<and>
   dist_to (Num 0, Num 0) (Num (3 / 8), Num 0) = Num (3 / 8) \<and>
   dist_to (Num 0, Num 0) (Num (1 / 4), Num 0) = Num (1 / 4) \<and>
   dist_to (Num 0, Num 0) (Num (1 / 4), Num 0) \<noteq>
     Num 2 * dist_to (Num 0, Num 0) (Num (3 / 8), Num 0)"
    by (simp add: eval_defs64 fl_values dist_to_def sqrt_values)
  have inner: "cp (tangent_cps64 (Num 0, Num 0) (Num 1, Num 0) (Num 2, Num 0) (Num (1 / 2 ^ 54))) =
     Some (Num 1, Num 0) \<and>
   cp (tangent_cps64 (Num 0, Num 0) (Num 1, Num 0) (Num 2, Num 0) (Num (2 * (1 / 2 ^ 54)))) =
     Some (Num (1 - 1 / 2 ^ 53), Num 0)"
    by (simp add: tangent_cps64_def tangent64_def disp64_def h64_def add64_def sub64_def
        mul64_def div64_def sqrt64_def Let_def fl_values fl_tie_below_one [simplified]
        fl_dyadic [of 1 54, simplified] fl_dyadic [of 1 53, simplified]
        fl_dyadic [of "2 ^ 53 - 1" 53, simplified])
  from ends inner show ?thesis
    by blast
qed

end
